theory Spec2Isabelle
  imports Main "HOL-Library.AList"
begin

section \<open>Exceptions, file trees and the world\<close>

text \<open>
  The program \<^verbatim>\<open>push.py\<close> is a sequence of calls into the operating system
  (\<^verbatim>\<open>os\<close>, \<^verbatim>\<open>shutil\<close>) and into GitPython, wrapped in
  \<^verbatim>\<open>try/except/finally\<close>. The embedding threads an explicit world through
  every call. A Python exception is a value of type \<open>exc\<close>; a call that may raise
  returns \<open>exc + 'a\<close> (\<open>Inl\<close> the exception) or, where it changes state before
  raising, a pair of \<open>exc option\<close> and the state it leaves behind.

  Every constructor of \<open>exc\<close> is a subclass of Python's \<^verbatim>\<open>Exception\<close>;
  \<^verbatim>\<open>KeyboardInterrupt\<close> and \<^verbatim>\<open>SystemExit\<close> are not modelled.
  \<^verbatim>\<open>print\<close> and \<^verbatim>\<open>os.path.exists\<close> are total.
\<close>

datatype exc =
    GitCommandError string
  | InvalidGitRepositoryError string
  | NoSuchPathError string
  | ValueError string
  | FileNotFoundError string
  | FileExistsError string
  | NotADirectoryError string
  | IsADirectoryError string
  | PermissionError string
  | DirectoryNotEmpty string
  | ShutilError "string list"

text \<open>\<^verbatim>\<open>str(e)\<close>, as the f-strings of the program print it.\<close>

fun str_exc :: "exc \<Rightarrow> string" where
  "str_exc (GitCommandError m) = m"
| "str_exc (InvalidGitRepositoryError m) = m"
| "str_exc (NoSuchPathError m) = m"
| "str_exc (ValueError m) = m"
| "str_exc (FileNotFoundError m) = m"
| "str_exc (FileExistsError m) = m"
| "str_exc (NotADirectoryError m) = m"
| "str_exc (IsADirectoryError m) = m"
| "str_exc (PermissionError m) = m"
| "str_exc (DirectoryNotEmpty m) = m"
| "str_exc (ShutilError ms) = concat ms"

text \<open>\<^verbatim>\<open>isinstance(e, git.exc.GitCommandError)\<close>.\<close>

fun is_GitCommandError :: "exc \<Rightarrow> bool" where
  "is_GitCommandError (GitCommandError m) = True"
| "is_GitCommandError e = False"

text \<open>
  A directory entry is a file (read-only bit, contents) or a directory (read-only bit,
  entries by name, in listing order).
\<close>

datatype node = File bool string | Dir bool "(string \<times> node) list"

type_synonym tree = "(string \<times> node) list"

text \<open>
  Operating-system calls that the environment can make fail for reasons outside the file
  tree (a file held open by another process, an access-control list): \<open>os_fault w c\<close>
  says that the call \<open>c\<close> fails with a \<^verbatim>\<open>PermissionError\<close>, every time.
\<close>

datatype os_call = Unlink string | Rmdir string | Scandir string | Chmod string

text \<open>Git operations; \<open>git_fault w c = Some e\<close> says that the call raises \<open>e\<close>.\<close>

datatype git_call = Clone | OpenRepo | Checkout | Add | Commit | Push

record commit =
  c_message :: string
  c_tree :: tree

text \<open>
  The git metadata of a checkout: local branches and remote-tracking branches (each with
  its history, newest commit first), the current branch, the index and the URL of the
  remote named origin.
\<close>

record repo =
  r_branches :: "(string \<times> commit list) list"
  r_remote_refs :: "(string \<times> commit list) list"
  r_head :: string
  r_index :: tree
  r_origin :: "string option"

record remote =
  rm_branches :: "(string \<times> commit list) list"
  rm_head :: string

text \<open>What the program does to the outside, in order: commits made and pushes accepted.\<close>

datatype event = EvCommit string string | EvPush string string

text \<open>
  The world: directory trees by absolute path (the trees under different paths are
  disjoint), the git metadata of the checkouts, the remote repositories by URL, the lines
  printed so far, the failures of the environment and the events so far.
\<close>

record world =
  cwd :: string
  fs :: "string \<Rightarrow> node option"
  repos :: "string \<Rightarrow> repo option"
  remotes :: "string \<Rightarrow> remote option"
  out :: "string list"
  os_fault :: "os_call \<Rightarrow> bool"
  git_fault :: "git_call \<Rightarrow> exc option"
  events :: "event list"

definition print_line :: "string \<Rightarrow> world \<Rightarrow> world" where
  "print_line s w = w\<lparr>out := out w @ [s]\<rparr>"

text \<open>\<^verbatim>\<open>os.path.join\<close> and \<^verbatim>\<open>os.path.abspath\<close> (without normalisation).\<close>

definition join :: "string \<Rightarrow> string \<Rightarrow> string" where
  "join p k = p @ ''/'' @ k"

definition abspath :: "world \<Rightarrow> string \<Rightarrow> string" where
  "abspath w p = (case p of [] \<Rightarrow> cwd w | c # cs \<Rightarrow> if c = CHR ''/'' then p else join (cwd w) p)"

definition exists_path :: "world \<Rightarrow> string \<Rightarrow> bool" where
  "exists_path w p = (fs w p \<noteq> None)"

section \<open>Removing a directory tree\<close>

text \<open>
  \<^verbatim>\<open>shutil.rmtree(path, onerror=handle_remove_readonly)\<close> on Windows, the
  platform the program is written for: deleting a read-only file or directory fails
  with a \<^verbatim>\<open>PermissionError\<close>. The functions work on the node at a path and return
  what is left there (\<open>None\<close>: nothing).
\<close>

datatype delfun = OsUnlink | OsRmdir | OsScandir

fun set_writable :: "node \<Rightarrow> node" where
  "set_writable (File ro c) = File False c"
| "set_writable (Dir ro es) = Dir False es"

text \<open>\<^verbatim>\<open>func(path)\<close> for the three functions rmtree hands to its error handler.\<close>

fun apply_func :: "(os_call \<Rightarrow> bool) \<Rightarrow> delfun \<Rightarrow> string \<Rightarrow> node \<Rightarrow> exc + node option" where
  "apply_func F OsUnlink p (File ro c) =
     (if ro \<or> F (Unlink p) then Inl (PermissionError p) else Inr None)"
| "apply_func F OsUnlink p (Dir ro es) = Inl (IsADirectoryError p)"
| "apply_func F OsRmdir p (Dir ro es) =
     (if es \<noteq> [] then Inl (DirectoryNotEmpty p)
      else if ro \<or> F (Rmdir p) then Inl (PermissionError p) else Inr None)"
| "apply_func F OsRmdir p (File ro c) = Inl (NotADirectoryError p)"
| "apply_func F OsScandir p (Dir ro es) =
     (if F (Scandir p) then Inl (PermissionError p) else Inr (Some (Dir ro es)))"
| "apply_func F OsScandir p (File ro c) = Inl (NotADirectoryError p)"

text \<open>
  \<^verbatim>\<open>handle_remove_readonly(func, path, exc)\<close>: if the path exists, make it writable
  and call \<^verbatim>\<open>func(path)\<close> again; an exception of \<^verbatim>\<open>os.chmod\<close> or of the
  second call leaves the handler.
\<close>

definition handle_remove_readonly ::
  "(os_call \<Rightarrow> bool) \<Rightarrow> delfun \<Rightarrow> string \<Rightarrow> node option \<Rightarrow> exc option \<times> node option" where
  "handle_remove_readonly F func p cur =
     (case cur of
        None \<Rightarrow> (None, None)
      | Some n \<Rightarrow>
          if F (Chmod p) then (Some (PermissionError p), Some n)
          else (case apply_func F func p (set_writable n) of
                  Inl e \<Rightarrow> (Some e, Some (set_writable n))
                | Inr s \<Rightarrow> (None, s)))"

text \<open>One call with the handler as \<^verbatim>\<open>onerror\<close>: an \<^verbatim>\<open>OSError\<close> goes to the handler.\<close>

definition with_onerror ::
  "(os_call \<Rightarrow> bool) \<Rightarrow> delfun \<Rightarrow> string \<Rightarrow> node \<Rightarrow> exc option \<times> node option" where
  "with_onerror F func p n =
     (case apply_func F func p n of
        Inr s \<Rightarrow> (None, s)
      | Inl e \<Rightarrow> handle_remove_readonly F func p (Some n))"

text \<open>
  The recursion of rmtree over a directory: list it, remove each entry (a file by
  unlink, a directory by recursion), then remove the directory itself. An exception that
  leaves the handler ends the whole removal; the entries not yet visited stay.
\<close>

function rm_node :: "(os_call \<Rightarrow> bool) \<Rightarrow> string \<Rightarrow> node \<Rightarrow> exc option \<times> node option"
  and rm_entries :: "(os_call \<Rightarrow> bool) \<Rightarrow> string \<Rightarrow> tree \<Rightarrow> exc option \<times> tree" where
  "rm_node F p (File ro c) = with_onerror F OsUnlink p (File ro c)"
| "rm_node F p (Dir ro es) =
     (case with_onerror F OsScandir p (Dir ro es) of
        (Some e, s) \<Rightarrow> (Some e, s)
      | (None, None) \<Rightarrow> (None, None)
      | (None, Some (File ro' c)) \<Rightarrow> (None, Some (File ro' c))
      | (None, Some (Dir ro' es')) \<Rightarrow>
          (case rm_entries F p es of
             (Some e, rest) \<Rightarrow> (Some e, Some (Dir ro' rest))
           | (None, rest) \<Rightarrow> with_onerror F OsRmdir p (Dir ro' rest)))"
| "rm_entries F p [] = (None, [])"
| "rm_entries F p ((k, n) # rest) =
     (case rm_node F (join p k) n of
        (Some e, None) \<Rightarrow> (Some e, rest)
      | (Some e, Some n') \<Rightarrow> (Some e, (k, n') # rest)
      | (None, None) \<Rightarrow> rm_entries F p rest
      | (None, Some n') \<Rightarrow>
          (case rm_entries F p rest of (r, rest') \<Rightarrow> (r, (k, n') # rest')))"
  by pat_completeness auto
termination
  by (relation "measure (\<lambda>x. case x of
          Inl (F, p, n) \<Rightarrow> size n
        | Inr (F, p, es) \<Rightarrow> size_list (size_prod (\<lambda>_. 0) size) es)") auto

text \<open>
  \<^verbatim>\<open>shutil.rmtree(path, onerror=...)\<close>: on a path that is not a directory the
  listing fails, the handler retries it and its exception leaves rmtree.
\<close>

definition rmtree :: "(os_call \<Rightarrow> bool) \<Rightarrow> string \<Rightarrow> node \<Rightarrow> exc option \<times> node option" where
  "rmtree F p n =
     (case n of
        File ro c \<Rightarrow> with_onerror F OsScandir p n
      | Dir ro es \<Rightarrow> rm_node F p n)"

text \<open>Writing back what is left at a path; the git metadata goes with the directory.\<close>

definition set_path :: "string \<Rightarrow> node option \<Rightarrow> world \<Rightarrow> world" where
  "set_path p s w =
     w\<lparr>fs := (fs w)(p := s),
       repos := (if s = None then (repos w)(p := None) else repos w)\<rparr>"

text \<open>
  \<^verbatim>\<open>safe_rmtree(path)\<close>: nothing if the path does not exist; otherwise rmtree, and
  any exception of it is printed as a warning. The result is the exception that leaves
  the function, if any.
\<close>

definition safe_rmtree :: "string \<Rightarrow> world \<Rightarrow> (exc + unit) \<times> world" where
  "safe_rmtree p w =
     (if exists_path w p then
        (case fs w p of
           None \<Rightarrow> (Inr (), w)
         | Some n \<Rightarrow>
             (case rmtree (os_fault w) p n of
                (None, s) \<Rightarrow> (Inr (), set_path p s w)
              | (Some e, s) \<Rightarrow>
                  (Inr (), print_line (''Warning: Could not completely remove '' @ p @ '': '' @ str_exc e)
                             (set_path p s w))))
      else (Inr (), w))"

section \<open>Copying files and directory trees\<close>

text \<open>
  \<^verbatim>\<open>shutil.copy2(src, dst)\<close> for a source file named \<open>k\<close> with read-only bit
  \<open>a\<close> and contents \<open>c\<close>, where \<open>cur\<close> is what the destination path holds. If
  the destination is a directory, the file is written inside it under the source's base
  name. Opening an existing read-only file for writing fails; the copy carries the
  source's permission bits. The result is the new node at the destination path.
\<close>

definition copy2 :: "string \<Rightarrow> string \<Rightarrow> bool \<Rightarrow> string \<Rightarrow> node option \<Rightarrow> exc + node" where
  "copy2 dst k a c cur =
     (case cur of
        None \<Rightarrow> Inr (File a c)
      | Some (File ro old) \<Rightarrow> if ro then Inl (PermissionError dst) else Inr (File a c)
      | Some (Dir ro inner) \<Rightarrow>
          (case map_of inner k of
             None \<Rightarrow> Inr (Dir ro (AList.update k (File a c) inner))
           | Some (File ro' old) \<Rightarrow>
               if ro' then Inl (PermissionError (join dst k))
               else Inr (Dir ro (AList.update k (File a c) inner))
           | Some (Dir ro' es) \<Rightarrow> Inl (IsADirectoryError (join dst k))))"

text \<open>The entries of \<^verbatim>\<open>shutil.Error\<close> that an exception adds to the parent's list.\<close>

fun errors_of :: "exc \<Rightarrow> string list" where
  "errors_of (ShutilError ms) = ms"
| "errors_of e = [str_exc e]"

text \<open>
  \<^verbatim>\<open>shutil.copytree(src, dst, dirs_exist_ok=ok)\<close> for a source directory with
  read-only bit \<open>a\<close> and entries \<open>ses\<close>. \<^verbatim>\<open>os.makedirs(dst, exist_ok=ok)\<close> raises
  if the destination is a file, or a directory when \<open>ok\<close> is false. Then every entry is
  copied; the errors of the entries are collected and raised together at the end, after
  the directory's permission bits are copied. The result is the exception, if any, and
  the new node at the destination path.
\<close>

function copytree :: "bool \<Rightarrow> string \<Rightarrow> bool \<Rightarrow> tree \<Rightarrow> node option \<Rightarrow> exc option \<times> node option"
  and copy_entries :: "bool \<Rightarrow> string \<Rightarrow> tree \<Rightarrow> tree \<Rightarrow> string list \<times> tree" where
  "copytree ok dst a ses cur =
     (case cur of
        Some (File ro c) \<Rightarrow> (Some (FileExistsError dst), cur)
      | Some (Dir ro des) \<Rightarrow>
          if \<not> ok then (Some (FileExistsError dst), cur)
          else (case copy_entries ok dst ses des of
                  (errs, des') \<Rightarrow>
                    (if errs = [] then None else Some (ShutilError errs), Some (Dir a des')))
      | None \<Rightarrow>
          (case copy_entries ok dst ses [] of
             (errs, des') \<Rightarrow>
               (if errs = [] then None else Some (ShutilError errs), Some (Dir a des'))))"
| "copy_entries ok dst [] des = ([], des)"
| "copy_entries ok dst ((k, File a c) # rest) des =
     (case copy2 (join dst k) k a c (map_of des k) of
        Inl e \<Rightarrow>
          (case copy_entries ok dst rest des of (errs, des') \<Rightarrow> (str_exc e # errs, des'))
      | Inr m \<Rightarrow> copy_entries ok dst rest (AList.update k m des))"
| "copy_entries ok dst ((k, Dir a ses) # rest) des =
     (case copytree ok (join dst k) a ses (map_of des k) of
        (r, s) \<Rightarrow>
          (case copy_entries ok dst rest (case s of None \<Rightarrow> des | Some m \<Rightarrow> AList.update k m des) of
             (errs, des') \<Rightarrow> ((case r of None \<Rightarrow> [] | Some e \<Rightarrow> errors_of e) @ errs, des')))"
  by pat_completeness auto
termination
  by (relation "measure (\<lambda>x. case x of
          Inl (ok, dst, a, ses, cur) \<Rightarrow> Suc (size_list (size_prod (\<lambda>_. 0) size) ses)
        | Inr (ok, dst, ses, des) \<Rightarrow> size_list (size_prod (\<lambda>_. 0) size) ses)") auto

section \<open>The git repository\<close>

text \<open>
  Git tracks files, not directories and not the read-only bit: the tracked content of a
  tree is the list of its files with their paths.
\<close>

function files_of_node :: "string list \<Rightarrow> node \<Rightarrow> (string list \<times> string) list"
  and files_of :: "string list \<Rightarrow> tree \<Rightarrow> (string list \<times> string) list" where
  "files_of_node p (File ro c) = [(p, c)]"
| "files_of_node p (Dir ro es) = files_of p es"
| "files_of p [] = []"
| "files_of p ((k, n) # rest) = files_of_node (p @ [k]) n @ files_of p rest"
  by pat_completeness auto
termination
  by (relation "measure (\<lambda>x. case x of
          Inl (p, n) \<Rightarrow> size n
        | Inr (p, es) \<Rightarrow> size_list (size_prod (\<lambda>_. 0) size) es)") auto

function has_file :: "node \<Rightarrow> bool"
  and has_files :: "tree \<Rightarrow> bool" where
  "has_file (File ro c) = True"
| "has_file (Dir ro es) = has_files es"
| "has_files [] = False"
| "has_files ((k, n) # rest) = (has_file n \<or> has_files rest)"
  by pat_completeness auto
termination
  by (relation "measure (\<lambda>x. case x of
          Inl n \<Rightarrow> size n
        | Inr es \<Rightarrow> size_list (size_prod (\<lambda>_. 0) size) es)") auto

text \<open>
  The working tree that git writes for a committed tree: the files, writable, and the
  directories that hold them.
\<close>

function checkout_node :: "node \<Rightarrow> node"
  and checkout_tree :: "tree \<Rightarrow> tree" where
  "checkout_node (File ro c) = File False c"
| "checkout_node (Dir ro es) = Dir False (checkout_tree es)"
| "checkout_tree [] = []"
| "checkout_tree ((k, n) # rest) =
     (if has_file n then (k, checkout_node n) # checkout_tree rest else checkout_tree rest)"
  by pat_completeness auto
termination
  by (relation "measure (\<lambda>x. case x of
          Inl n \<Rightarrow> size n
        | Inr es \<Rightarrow> size_list (size_prod (\<lambda>_. 0) size) es)") auto

definition tree_of :: "commit list \<Rightarrow> tree" where
  "tree_of h = (case h of [] \<Rightarrow> [] | c # cs \<Rightarrow> c_tree c)"

definition history :: "(string \<times> commit list) list \<Rightarrow> string \<Rightarrow> commit list" where
  "history bs b = (case map_of bs b of None \<Rightarrow> [] | Some h \<Rightarrow> h)"

definition head_tree :: "repo \<Rightarrow> tree" where
  "head_tree r = tree_of (history (r_branches r) (r_head r))"

text \<open>The entries of the directory at a path (none if it is not a directory).\<close>

definition worktree :: "world \<Rightarrow> string \<Rightarrow> tree" where
  "worktree w p = (case fs w p of Some (Dir ro es) \<Rightarrow> es | _ \<Rightarrow> [])"

definition set_worktree :: "string \<Rightarrow> tree \<Rightarrow> world \<Rightarrow> world" where
  "set_worktree p es w =
     w\<lparr>fs := (fs w)(p \<mapsto> (case fs w p of Some (Dir ro old) \<Rightarrow> Dir ro es | _ \<Rightarrow> Dir False es))\<rparr>"

text \<open>
  \<^verbatim>\<open>repo.is_dirty()\<close>: the index differs from the head commit, or a tracked file
  differs in the working tree. \<^verbatim>\<open>repo.untracked_files\<close>: the files of the working
  tree that the index does not know. Ignore rules are not modelled.
\<close>

definition is_dirty :: "repo \<Rightarrow> tree \<Rightarrow> bool" where
  "is_dirty r wt =
     (set (files_of [] (r_index r)) \<noteq> set (files_of [] (head_tree r))
      \<or> \<not> set (files_of [] (r_index r)) \<subseteq> set (files_of [] wt))"

definition untracked_files :: "repo \<Rightarrow> tree \<Rightarrow> string list list" where
  "untracked_files r wt =
     filter (\<lambda>p. p \<notin> set (map fst (files_of [] (r_index r)))) (map fst (files_of [] wt))"

text \<open>
  \<^verbatim>\<open>git.Repo.clone_from(url, dir)\<close>: fails if the remote is unknown or the
  directory exists and is not empty; otherwise the directory holds the working tree of
  the remote's head branch, which is the only local branch, and every branch of the
  remote has a remote-tracking branch.
\<close>

definition clone_from :: "string \<Rightarrow> string \<Rightarrow> world \<Rightarrow> (exc + unit) \<times> world" where
  "clone_from url dir w =
     (case git_fault w Clone of
        Some e \<Rightarrow> (Inl e, w)
      | None \<Rightarrow>
          (case remotes w url of
             None \<Rightarrow> (Inl (GitCommandError (''repository '' @ url @ '' not found'')), w)
           | Some rmt \<Rightarrow>
               if fs w dir \<noteq> None \<and> fs w dir \<noteq> Some (Dir False []) \<and> fs w dir \<noteq> Some (Dir True [])
               then (Inl (GitCommandError
                      (''destination path '' @ dir @ '' already exists and is not an empty directory'')), w)
               else
                 (Inr (),
                  w\<lparr>fs := (fs w)(dir \<mapsto>
                         Dir False (checkout_tree (tree_of (history (rm_branches rmt) (rm_head rmt))))),
                    repos := (repos w)(dir \<mapsto>
                         \<lparr>r_branches =
                            (case map_of (rm_branches rmt) (rm_head rmt) of
                               None \<Rightarrow> []
                             | Some h \<Rightarrow> [(rm_head rmt, h)]),
                          r_remote_refs = rm_branches rmt,
                          r_head = rm_head rmt,
                          r_index = tree_of (history (rm_branches rmt) (rm_head rmt)),
                          r_origin = Some url\<rparr>)\<rparr>)))"

text \<open>\<^verbatim>\<open>git.Repo(path)\<close>: the path must exist and be a checkout.\<close>

definition open_repo :: "string \<Rightarrow> world \<Rightarrow> (exc + unit) \<times> world" where
  "open_repo p w =
     (case git_fault w OpenRepo of
        Some e \<Rightarrow> (Inl e, w)
      | None \<Rightarrow>
          (case fs w p of
             None \<Rightarrow> (Inl (NoSuchPathError p), w)
           | Some (File ro c) \<Rightarrow> (Inl (InvalidGitRepositoryError p), w)
           | Some (Dir ro es) \<Rightarrow>
               (case repos w p of
                  None \<Rightarrow> (Inl (InvalidGitRepositoryError p), w)
                | Some r \<Rightarrow> (Inr (), w))))"

text \<open>
  \<^verbatim>\<open>[branch.name for branch in repo.branches]\<close> and
  \<^verbatim>\<open>[ref.name for ref in repo.refs]\<close> (local branches, then remote-tracking
  branches under the prefix origin/; tags and the symbolic reference origin/HEAD are
  not modelled).
\<close>

definition branch_names :: "world \<Rightarrow> string \<Rightarrow> string list" where
  "branch_names w p = (case repos w p of None \<Rightarrow> [] | Some r \<Rightarrow> map fst (r_branches r))"

definition ref_names :: "world \<Rightarrow> string \<Rightarrow> string list" where
  "ref_names w p =
     (case repos w p of
        None \<Rightarrow> []
      | Some r \<Rightarrow> map fst (r_branches r) @ map (\<lambda>b. ''origin/'' @ fst b) (r_remote_refs r))"

text \<open>
  Switching the checkout at \<open>p\<close> to the history \<open>h\<close> under the branch name \<open>b\<close>.
  Git refuses when local changes stand in the way; the model refuses whenever the
  working tree differs from the head commit (git itself carries over changes that do
  not conflict).
\<close>

definition switch_to :: "string \<Rightarrow> commit list \<Rightarrow> string \<Rightarrow> repo \<Rightarrow> world \<Rightarrow> (exc + unit) \<times> world" where
  "switch_to b h p r w =
     (if set (files_of [] (worktree w p)) \<noteq> set (files_of [] (head_tree r))
      then (Inl (GitCommandError ''local changes would be overwritten by checkout''), w)
      else (Inr (),
            (set_worktree p (checkout_tree (tree_of h)) w)
              \<lparr>repos := (repos w)(p \<mapsto> r\<lparr>r_head := b, r_index := tree_of h\<rparr>)\<rparr>))"

text \<open>\<^verbatim>\<open>repo.git.checkout(b)\<close>.\<close>

definition git_checkout :: "string \<Rightarrow> string \<Rightarrow> world \<Rightarrow> (exc + unit) \<times> world" where
  "git_checkout b p w =
     (case git_fault w Checkout of
        Some e \<Rightarrow> (Inl e, w)
      | None \<Rightarrow>
          (case repos w p of
             None \<Rightarrow> (Inl (GitCommandError ''not a git repository''), w)
           | Some r \<Rightarrow>
               (case map_of (r_branches r) b of
                  None \<Rightarrow> (Inl (GitCommandError (''pathspec '' @ b @ '' did not match'')), w)
                | Some h \<Rightarrow> if b = r_head r then (Inr (), w) else switch_to b h p r w)))"

text \<open>\<^verbatim>\<open>repo.git.checkout('-b', b, 'origin/' + b)\<close>.\<close>

definition git_checkout_b :: "string \<Rightarrow> string \<Rightarrow> world \<Rightarrow> (exc + unit) \<times> world" where
  "git_checkout_b b p w =
     (case git_fault w Checkout of
        Some e \<Rightarrow> (Inl e, w)
      | None \<Rightarrow>
          (case repos w p of
             None \<Rightarrow> (Inl (GitCommandError ''not a git repository''), w)
           | Some r \<Rightarrow>
               (case map_of (r_remote_refs r) b of
                  None \<Rightarrow> (Inl (GitCommandError (''origin/'' @ b @ '' is not a commit'')), w)
                | Some h \<Rightarrow>
                    if b \<in> set (map fst (r_branches r))
                    then (Inl (GitCommandError (''a branch named '' @ b @ '' already exists'')), w)
                    else switch_to b h p (r\<lparr>r_branches := r_branches r @ [(b, h)]\<rparr>) w)))"

text \<open>\<^verbatim>\<open>repo.git.add(all=True)\<close>: the index becomes the working tree.\<close>

definition git_add_all :: "string \<Rightarrow> world \<Rightarrow> (exc + unit) \<times> world" where
  "git_add_all p w =
     (case git_fault w Add of
        Some e \<Rightarrow> (Inl e, w)
      | None \<Rightarrow>
          (case repos w p of
             None \<Rightarrow> (Inl (GitCommandError ''not a git repository''), w)
           | Some r \<Rightarrow> (Inr (), w\<lparr>repos := (repos w)(p \<mapsto> r\<lparr>r_index := worktree w p\<rparr>)\<rparr>)))"

text \<open>\<^verbatim>\<open>repo.index.commit(message)\<close>: a new commit of the index on the current branch.\<close>

definition index_commit :: "string \<Rightarrow> string \<Rightarrow> world \<Rightarrow> (exc + unit) \<times> world" where
  "index_commit msg p w =
     (case git_fault w Commit of
        Some e \<Rightarrow> (Inl e, w)
      | None \<Rightarrow>
          (case repos w p of
             None \<Rightarrow> (Inl (GitCommandError ''not a git repository''), w)
           | Some r \<Rightarrow>
               (Inr (),
                w\<lparr>repos := (repos w)(p \<mapsto>
                     r\<lparr>r_branches :=
                         AList.update (r_head r)
                           (\<lparr>c_message = msg, c_tree = r_index r\<rparr> # history (r_branches r) (r_head r))
                           (r_branches r)\<rparr>),
                  events := events w @ [EvCommit p msg]\<rparr>)))"

text \<open>
  \<^verbatim>\<open>repo.remote(name='origin')\<close> followed by \<^verbatim>\<open>origin.push()\<close>: a repository
  without that remote raises a \<^verbatim>\<open>ValueError\<close>; a push that raises changes nothing;
  otherwise the remote's branch of the current name takes the local history. (A
  rejection that GitPython reports in the returned flags without raising is not
  modelled.)
\<close>

definition push_origin :: "string \<Rightarrow> world \<Rightarrow> (exc + unit) \<times> world" where
  "push_origin p w =
     (case repos w p of
        None \<Rightarrow> (Inl (GitCommandError ''not a git repository''), w)
      | Some r \<Rightarrow>
          (case r_origin r of
             None \<Rightarrow> (Inl (ValueError ''Remote named origin did not exist''), w)
           | Some url \<Rightarrow>
               (case git_fault w Push of
                  Some e \<Rightarrow> (Inl e, w)
                | None \<Rightarrow>
                    (case remotes w url of
                       None \<Rightarrow> (Inl (GitCommandError (''unable to access '' @ url)), w)
                     | Some rmt \<Rightarrow>
                         (Inr (),
                          w\<lparr>remotes := (remotes w)(url \<mapsto>
                               rmt\<lparr>rm_branches :=
                                     AList.update (r_head r) (history (r_branches r) (r_head r))
                                       (rm_branches rmt)\<rparr>),
                            repos := (repos w)(p \<mapsto>
                               r\<lparr>r_remote_refs :=
                                   AList.update (r_head r) (history (r_branches r) (r_head r))
                                     (r_remote_refs r)\<rparr>),
                            events := events w @ [EvPush url (r_head r)]\<rparr>)))))"

section \<open>Control flow\<close>

text \<open>
  Statements take the world and return the exception that leaves them, if any, and the
  new world: sequencing, \<^verbatim>\<open>print\<close>, \<^verbatim>\<open>try/except\<close> (the handler decides by the
  exception; one it does not catch it raises again) and \<^verbatim>\<open>try/finally\<close>.
\<close>

type_synonym stmt = "world \<Rightarrow> (exc + unit) \<times> world"

definition seq :: "stmt \<Rightarrow> stmt \<Rightarrow> stmt" where
  "seq f g w = (case f w of (Inl e, w') \<Rightarrow> (Inl e, w') | (Inr u, w') \<Rightarrow> g w')"

definition pr :: "string \<Rightarrow> stmt" where
  "pr s w = (Inr (), print_line s w)"

definition skip :: stmt where
  "skip w = (Inr (), w)"

definition raise :: "exc \<Rightarrow> stmt" where
  "raise e w = (Inl e, w)"

definition try_except :: "stmt \<Rightarrow> (exc \<Rightarrow> stmt) \<Rightarrow> stmt" where
  "try_except f h w = (case f w of (Inl e, w') \<Rightarrow> h e w' | (Inr u, w') \<Rightarrow> (Inr u, w'))"

definition try_finally :: "stmt \<Rightarrow> stmt \<Rightarrow> stmt" where
  "try_finally f g w =
     (case f w of
        (r, w') \<Rightarrow> (case g w' of (Inl e, w'') \<Rightarrow> (Inl e, w'') | (Inr u, w'') \<Rightarrow> (r, w'')))"

section \<open>The program\<close>

text \<open>
  \<^verbatim>\<open>os.listdir(path)\<close>, with each name's node: the loops below read
  \<^verbatim>\<open>os.path.isdir(source_item)\<close> from it. The source folder and the checkout are
  different directories, so copying does not change the listing.
\<close>

definition listdir :: "world \<Rightarrow> string \<Rightarrow> exc + tree" where
  "listdir w p =
     (case fs w p of
        None \<Rightarrow> Inl (FileNotFoundError p)
      | Some (File ro c) \<Rightarrow> Inl (NotADirectoryError p)
      | Some (Dir ro es) \<Rightarrow> Inr es)"

text \<open>\<^verbatim>\<open>os.path.exists(target_item)\<close> for an item of the checkout's root.\<close>

definition target_exists :: "world \<Rightarrow> string \<Rightarrow> string \<Rightarrow> bool" where
  "target_exists w root item = (map_of (worktree w root) item \<noteq> None)"

text \<open>
  \<^verbatim>\<open>shutil.copy2(source_item, target_item)\<close> and
  \<^verbatim>\<open>shutil.copytree(source_item, target_item, dirs_exist_ok=ok)\<close> with the target
  in the checkout's root (a directory whenever the program gets this far).
\<close>

definition copy2_at :: "string \<Rightarrow> string \<Rightarrow> bool \<Rightarrow> string \<Rightarrow> stmt" where
  "copy2_at root item a c w =
     (case fs w root of
        Some (Dir ro des) \<Rightarrow>
          (case copy2 (join root item) item a c (map_of des item) of
             Inl e \<Rightarrow> (Inl e, w)
           | Inr m \<Rightarrow> (Inr (), set_worktree root (AList.update item m des) w))
      | _ \<Rightarrow> (Inl (NotADirectoryError root), w))"

definition copytree_at :: "bool \<Rightarrow> string \<Rightarrow> string \<Rightarrow> bool \<Rightarrow> tree \<Rightarrow> stmt" where
  "copytree_at ok root item a ses w =
     (case fs w root of
        Some (Dir ro des) \<Rightarrow>
          (case copytree ok (join root item) a ses (map_of des item) of
             (r, s) \<Rightarrow>
               (case r of None \<Rightarrow> Inr () | Some e \<Rightarrow> Inl e,
                case s of None \<Rightarrow> w | Some m \<Rightarrow> set_worktree root (AList.update item m des) w))
      | _ \<Rightarrow> (Inl (NotADirectoryError root), w))"

text \<open>
  The body of the loop of \<^verbatim>\<open>clone_and_push_folder_fixed\<close> (lines 73 to 86) for
  one item of the source folder, and the loop.
\<close>

fun copy_item_clone :: "string \<Rightarrow> string \<times> node \<Rightarrow> stmt" where
  "copy_item_clone clone_dir (item, Dir a ses) =
     (\<lambda>w. if target_exists w clone_dir item
          then seq (pr (''Merging directory: '' @ item)) (copytree_at True clone_dir item a ses) w
          else seq (pr (''Copying directory: '' @ item)) (copytree_at False clone_dir item a ses) w)"
| "copy_item_clone clone_dir (item, File a c) =
     seq (pr (''Copying file: '' @ item)) (copy2_at clone_dir item a c)"

primrec copy_items_clone :: "string \<Rightarrow> tree \<Rightarrow> stmt" where
  "copy_items_clone clone_dir [] = skip"
| "copy_items_clone clone_dir (x # rest) =
     seq (copy_item_clone clone_dir x) (copy_items_clone clone_dir rest)"

text \<open>The same for \<^verbatim>\<open>push_to_existing_repo\<close> (lines 142 to 154).\<close>

fun copy_item_existing :: "string \<Rightarrow> string \<times> node \<Rightarrow> stmt" where
  "copy_item_existing repo_path (item, Dir a ses) =
     seq (pr (''Processing: '' @ item))
       (\<lambda>w. if target_exists w repo_path item
            then copytree_at True repo_path item a ses w
            else copytree_at False repo_path item a ses w)"
| "copy_item_existing repo_path (item, File a c) =
     seq (pr (''Processing: '' @ item)) (copy2_at repo_path item a c)"

primrec copy_items_existing :: "string \<Rightarrow> tree \<Rightarrow> stmt" where
  "copy_items_existing repo_path [] = skip"
| "copy_items_existing repo_path (x # rest) =
     seq (copy_item_existing repo_path x) (copy_items_existing repo_path rest)"

text \<open>\<^verbatim>\<open>repo.is_dirty() or repo.untracked_files\<close> for the checkout at a path.\<close>

definition has_changes :: "world \<Rightarrow> string \<Rightarrow> bool" where
  "has_changes w p =
     (case repos w p of
        None \<Rightarrow> False
      | Some r \<Rightarrow> is_dirty r (worktree w p) \<or> untracked_files r (worktree w p) \<noteq> [])"

text \<open>\<^verbatim>\<open>clone_and_push_folder_fixed\<close>, lines 42 to 53: the clone.\<close>

definition acquire_clone :: "string \<Rightarrow> string \<Rightarrow> string \<Rightarrow> stmt" where
  "acquire_clone repo_url local_folder_path clone_dir =
     seq (pr (''Local folder: '' @ local_folder_path))
    (seq (pr (''Clone directory: '' @ clone_dir))
    (seq (\<lambda>w. if exists_path w clone_dir
              then seq (pr ''Removing existing clone directory...'') (safe_rmtree clone_dir) w
              else skip w)
    (seq (pr (''Cloning repository from '' @ repo_url @ ''...''))
    (seq (clone_from repo_url clone_dir)
         (pr ''Repository cloned successfully'')))))"

text \<open>Lines 55 to 66: the branch.\<close>

definition switch_branch_clone :: "string \<Rightarrow> string \<Rightarrow> stmt" where
  "switch_branch_clone branch_name clone_dir =
     try_except
       (\<lambda>w. if branch_name \<in> set (branch_names w clone_dir)
            then seq (git_checkout branch_name clone_dir)
                     (pr (''Switched to existing branch: '' @ branch_name)) w
            else if (''origin/'' @ branch_name) \<in> set (ref_names w clone_dir)
            then seq (git_checkout_b branch_name clone_dir)
                     (pr (''Created and switched to branch: '' @ branch_name)) w
            else pr (''Using current branch (could not find '' @ branch_name @ '')'') w)
       (\<lambda>e. pr (''Branch switching warning: '' @ str_exc e))"

text \<open>Lines 68 to 88: the copy.\<close>

definition merge_clone :: "string \<Rightarrow> string \<Rightarrow> stmt" where
  "merge_clone local_folder_path clone_dir =
     seq (pr (''Copying contents from '' @ local_folder_path @ '' to '' @ clone_dir))
    (seq (\<lambda>w. case listdir w local_folder_path of
                Inl e \<Rightarrow> raise e w
              | Inr items \<Rightarrow> copy_items_clone clone_dir items w)
         (pr ''Files copied successfully''))"

text \<open>Lines 99 to 106: the push and its handler.\<close>

definition push_clone :: "string \<Rightarrow> stmt" where
  "push_clone clone_dir =
     try_except
       (seq (push_origin clone_dir) (pr ''Successfully pushed to remote repository''))
       (\<lambda>e. if is_GitCommandError e
            then seq (pr (''Push failed: '' @ str_exc e))
                     (pr ''You may need to configure authentication or check repository permissions'')
            else raise e)"

text \<open>Lines 90 to 108: staging, commit and push.\<close>

definition publish_clone :: "string \<Rightarrow> string \<Rightarrow> stmt" where
  "publish_clone commit_message clone_dir =
     seq (git_add_all clone_dir)
    (seq (pr ''Files added to staging area'')
         (\<lambda>w. if has_changes w clone_dir
              then seq (index_commit commit_message clone_dir)
                  (seq (pr (''Changes committed: '' @ commit_message))
                       (push_clone clone_dir)) w
              else pr ''No changes to commit'' w))"

text \<open>Lines 114 to 118: the \<^verbatim>\<open>finally\<close> block.\<close>

definition cleanup :: "string \<Rightarrow> stmt" where
  "cleanup clone_dir =
     seq (pr ''Performing cleanup...'') (seq (safe_rmtree clone_dir) (pr ''Cleanup completed''))"

text \<open>Lines 38 to 88: everything up to the copy, on absolute paths.\<close>

definition prepare_clone :: "string \<Rightarrow> string \<Rightarrow> string \<Rightarrow> string \<Rightarrow> stmt" where
  "prepare_clone repo_url local_folder_path clone_dir branch_name =
     seq (acquire_clone repo_url local_folder_path clone_dir)
    (seq (switch_branch_clone branch_name clone_dir)
         (merge_clone local_folder_path clone_dir))"

text \<open>Lines 38 to 108: the \<^verbatim>\<open>try\<close> block.\<close>

definition clone_and_push_body ::
  "string \<Rightarrow> string \<Rightarrow> string \<Rightarrow> string \<Rightarrow> string \<Rightarrow> stmt" where
  "clone_and_push_body repo_url local_folder_path clone_dir commit_message branch_name =
     seq (prepare_clone repo_url local_folder_path clone_dir branch_name)
         (publish_clone commit_message clone_dir)"

definition clone_and_push_folder_fixed ::
  "string \<Rightarrow> string \<Rightarrow> string \<Rightarrow> string \<Rightarrow> string \<Rightarrow> stmt" where
  "clone_and_push_folder_fixed repo_url local_folder_path clone_dir commit_message branch_name w =
     try_finally
       (try_except
          (clone_and_push_body repo_url (abspath w local_folder_path) (abspath w clone_dir)
             commit_message branch_name)
          (\<lambda>e. if is_GitCommandError e
               then pr (''Git command error: '' @ str_exc e)
               else pr (''Error: '' @ str_exc e)))
       (cleanup (abspath w clone_dir)) w"

text \<open>\<^verbatim>\<open>push_to_existing_repo\<close>, lines 160 to 169: commit and push.\<close>

definition publish_existing :: "string \<Rightarrow> string \<Rightarrow> stmt" where
  "publish_existing commit_message repo_path =
     (\<lambda>w. if has_changes w repo_path
          then seq (index_commit commit_message repo_path)
              (seq (pr (''Committed: '' @ commit_message))
              (seq (push_origin repo_path)
                   (pr ''Pushed to remote repository''))) w
          else pr ''No changes to commit'' w)"

text \<open>Lines 135 to 138: the branch.\<close>

definition switch_branch_existing :: "string \<Rightarrow> string \<Rightarrow> stmt" where
  "switch_branch_existing branch_name repo_path =
     (\<lambda>w. if branch_name \<in> set (branch_names w repo_path)
          then seq (git_checkout branch_name repo_path)
                   (pr (''Switched to branch: '' @ branch_name)) w
          else skip w)"

text \<open>Lines 140 to 154: the copy.\<close>

definition merge_existing :: "string \<Rightarrow> string \<Rightarrow> stmt" where
  "merge_existing local_folder_path repo_path =
     (\<lambda>w. case listdir w local_folder_path of
            Inl e \<Rightarrow> raise e w
          | Inr items \<Rightarrow> copy_items_existing repo_path items w)"

text \<open>Lines 126 to 158: everything up to the staging, on absolute paths.\<close>

definition stage_existing :: "string \<Rightarrow> string \<Rightarrow> string \<Rightarrow> stmt" where
  "stage_existing local_folder_path repo_path branch_name =
     seq (pr (''Source folder: '' @ local_folder_path))
    (seq (pr (''Target repo: '' @ repo_path))
    (seq (open_repo repo_path)
    (seq (switch_branch_existing branch_name repo_path)
    (seq (merge_existing local_folder_path repo_path)
    (seq (git_add_all repo_path)
         (pr ''Files staged successfully''))))))"

text \<open>Lines 126 to 169: the \<^verbatim>\<open>try\<close> block.\<close>

definition push_to_existing_body :: "string \<Rightarrow> string \<Rightarrow> string \<Rightarrow> string \<Rightarrow> stmt" where
  "push_to_existing_body local_folder_path repo_path commit_message branch_name =
     seq (stage_existing local_folder_path repo_path branch_name)
         (publish_existing commit_message repo_path)"

definition push_to_existing_repo :: "string \<Rightarrow> string \<Rightarrow> string \<Rightarrow> string \<Rightarrow> stmt" where
  "push_to_existing_repo local_folder_path repo_path commit_message branch_name w =
     try_except
       (push_to_existing_body (abspath w local_folder_path) (abspath w repo_path)
          commit_message branch_name)
       (\<lambda>e. pr (''Error: '' @ str_exc e)) w"

section \<open>Notions used in the statements\<close>

text \<open>
  \<open>dom_le w w'\<close>: every directory tree and every checkout of \<open>w\<close> is still there in
  \<open>w'\<close>; a statement grows the world if it never removes one.
\<close>

definition dom_le :: "world \<Rightarrow> world \<Rightarrow> bool" where
  "dom_le w w' =
     (\<forall>q. (fs w q \<noteq> None \<longrightarrow> fs w' q \<noteq> None) \<and> (repos w q \<noteq> None \<longrightarrow> repos w' q \<noteq> None))"

definition grows :: "stmt \<Rightarrow> bool" where
  "grows f = (\<forall>w. dom_le w (snd (f w)))"

text \<open>The commits among the events.\<close>

fun is_commit :: "event \<Rightarrow> bool" where
  "is_commit (EvCommit p m) = True"
| "is_commit (EvPush u b) = False"

text \<open>
  What the loops of lines 72 to 86 and 141 to 154 do to the entries of the checkout's
  root, the prints left out: the exception that ends the loop, if any, and the new
  entries.
\<close>

fun merge_item :: "string \<Rightarrow> string \<times> node \<Rightarrow> tree \<Rightarrow> exc option \<times> tree" where
  "merge_item root (k, File a c) des =
     (case copy2 (join root k) k a c (map_of des k) of
        Inl e \<Rightarrow> (Some e, des)
      | Inr m \<Rightarrow> (None, AList.update k m des))"
| "merge_item root (k, Dir a ses) des =
     (case copytree (map_of des k \<noteq> None) (join root k) a ses (map_of des k) of
        (r, s) \<Rightarrow> (r, case s of None \<Rightarrow> des | Some m \<Rightarrow> AList.update k m des))"

fun merge_items :: "string \<Rightarrow> tree \<Rightarrow> tree \<Rightarrow> exc option \<times> tree" where
  "merge_items root [] des = (None, des)"
| "merge_items root (x # rest) des =
     (case merge_item root x des of
        (Some e, des') \<Rightarrow> (Some e, des')
      | (None, des') \<Rightarrow> merge_items root rest des')"

text \<open>A well-formed tree: the names in every directory are distinct.\<close>

function wf_node :: "node \<Rightarrow> bool"
  and wf_tree :: "tree \<Rightarrow> bool" where
  "wf_node (File ro c) = True"
| "wf_node (Dir ro es) = wf_tree es"
| "wf_tree [] = True"
| "wf_tree ((k, n) # rest) = (k \<notin> set (map fst rest) \<and> wf_node n \<and> wf_tree rest)"
  by pat_completeness auto
termination
  by (relation "measure (\<lambda>x. case x of
          Inl n \<Rightarrow> size n
        | Inr es \<Rightarrow> size_list (size_prod (\<lambda>_. 0) size) es)") auto

text \<open>
  The node at a path below a list of entries, and the paths that leave a source tree:
  some component, reached through directories of the source, is not a name of the source.
\<close>

fun lookup :: "tree \<Rightarrow> string list \<Rightarrow> node option" where
  "lookup es [] = None"
| "lookup es [k] = map_of es k"
| "lookup es (k # k' # ks) =
     (case map_of es k of Some (Dir ro es') \<Rightarrow> lookup es' (k' # ks) | _ \<Rightarrow> None)"

fun dest_only :: "tree \<Rightarrow> string list \<Rightarrow> bool" where
  "dest_only ses [] = False"
| "dest_only ses (k # ks) =
     (case map_of ses k of
        None \<Rightarrow> True
      | Some (File ro c) \<Rightarrow> False
      | Some (Dir ro ses') \<Rightarrow> dest_only ses' ks)"

text \<open>
  \<open>contains ses des\<close>: every entry of the source is in the destination under its name,
  a file with the source's contents and permission bits, a directory with the source's
  permission bits and, in turn, every entry of the source directory.
\<close>

function contains_node :: "node \<Rightarrow> node \<Rightarrow> bool"
  and contains :: "tree \<Rightarrow> tree \<Rightarrow> bool" where
  "contains_node (File a c) m = (m = File a c)"
| "contains_node (Dir a ses) m = (case m of Dir b des \<Rightarrow> b = a \<and> contains ses des | File b c \<Rightarrow> False)"
| "contains [] des = True"
| "contains ((k, n) # rest) des =
     ((case map_of des k of None \<Rightarrow> False | Some m \<Rightarrow> contains_node n m) \<and> contains rest des)"
  by pat_completeness auto
termination
  by (relation "measure (\<lambda>x. case x of
          Inl (n, m) \<Rightarrow> size n
        | Inr (es, des) \<Rightarrow> size_list (size_prod (\<lambda>_. 0) size) es)") auto

text \<open>
  \<open>no_clash ses des\<close>: no file of the source has the name of a directory at the same
  place of the destination.
\<close>

function no_clash :: "tree \<Rightarrow> tree \<Rightarrow> bool" where
  "no_clash [] des = True"
| "no_clash ((k, File a c) # rest) des =
     ((case map_of des k of Some (Dir b des') \<Rightarrow> False | _ \<Rightarrow> True) \<and> no_clash rest des)"
| "no_clash ((k, Dir a ses) # rest) des =
     ((case map_of des k of Some (Dir b des') \<Rightarrow> no_clash ses des' | _ \<Rightarrow> True)
      \<and> no_clash rest des)"
  by pat_completeness auto
termination
  by (relation "measure (\<lambda>(ses, des). size_list (size_prod (\<lambda>_. 0) size) ses)") auto

text \<open>Two worlds that differ at most in their directory trees and in what was printed.\<close>

definition same_git :: "world \<Rightarrow> world \<Rightarrow> bool" where
  "same_git w w' =
     (repos w' = repos w \<and> remotes w' = remotes w \<and> events w' = events w
      \<and> git_fault w' = git_fault w \<and> os_fault w' = os_fault w \<and> cwd w' = cwd w)"

text \<open>
  What a fresh checkout of a commit holds in place of a node of the committed tree: the
  node as git writes it, or nothing if the node holds no file.
\<close>

definition kept :: "node option \<Rightarrow> node option" where
  "kept x = (case x of None \<Rightarrow> None | Some v \<Rightarrow> if has_file v then Some (checkout_node v) else None)"

text \<open>
  \<open>same_outside p w w'\<close>: the two worlds have the same events, remotes, failures and
  working directory, and the same directory trees except at \<open>p\<close>; a statement is
  local to \<open>p\<close> if it leaves every world the same outside \<open>p\<close>.
\<close>

definition same_outside :: "string \<Rightarrow> world \<Rightarrow> world \<Rightarrow> bool" where
  "same_outside p w w' =
     (events w' = events w \<and> remotes w' = remotes w \<and> git_fault w' = git_fault w
      \<and> os_fault w' = os_fault w \<and> cwd w' = cwd w \<and> (\<forall>q. q \<noteq> p \<longrightarrow> fs w' q = fs w q))"

definition local_to :: "string \<Rightarrow> stmt \<Rightarrow> bool" where
  "local_to p f = (\<forall>w. same_outside p w (snd (f w)))"

text \<open>
  The branch that the clone is on after lines 52 to 66, for a remote \<open>rmt\<close>, the
  requested branch \<open>b\<close> and the failures \<open>F\<close> of the git calls: the requested
  branch if the remote has it, it is not the remote's head branch and the checkout does
  not fail; the remote's head branch otherwise.
\<close>

definition selected_branch :: "remote \<Rightarrow> string \<Rightarrow> (git_call \<Rightarrow> exc option) \<Rightarrow> string" where
  "selected_branch rmt b F =
     (if b \<noteq> rm_head rmt \<and> map_of (rm_branches rmt) b \<noteq> None \<and> F Checkout = None
      then b else rm_head rmt)"

text \<open>A remote whose commits all hold well-formed trees.\<close>

definition wf_remote :: "remote \<Rightarrow> bool" where
  "wf_remote rmt = list_all (\<lambda>(b, h). list_all (\<lambda>c. wf_tree (c_tree c)) h) (rm_branches rmt)"

section \<open>Example worlds\<close>

text \<open>
  A source folder with a file and a directory, and a remote whose only branch holds a
  file and a directory of the same name as the source's.
\<close>

definition ex_src :: node where
  "ex_src = Dir False [(''a.txt'', File False ''A''), (''docs'', Dir False [(''n.md'', File True ''N'')])]"

definition ex_remote :: remote where
  "ex_remote =
     \<lparr>rm_branches =
        [(''main'', [\<lparr>c_message = ''init'',
                     c_tree = [(''docs'', Dir False [(''old.md'', File False ''O'')]),
                               (''r.txt'', File False ''R'')]\<rparr>])],
      rm_head = ''main''\<rparr>"

definition ex_world :: world where
  "ex_world =
     \<lparr>cwd = ''/w'', fs = Map.empty(''/w/src'' \<mapsto> ex_src), repos = Map.empty,
      remotes = Map.empty(''url'' \<mapsto> ex_remote), out = [], os_fault = (\<lambda>c. False),
      git_fault = (\<lambda>c. None), events = []\<rparr>"

text \<open>A world with a leftover directory that holds a read-only file.\<close>

definition ex_leftover :: world where
  "ex_leftover =
     ex_world\<lparr>fs := (fs ex_world)(''/w/temp_repo'' \<mapsto>
        Dir False [(''a'', File True ''x''), (''d'', Dir True [(''b'', File False ''y'')])])\<rparr>"

text \<open>
  A checkout that the caller owns, on branch main, with remote-tracking branches main and
  dev; and the example world with a push that the remote refuses.
\<close>

definition ex_repo :: repo where
  "ex_repo =
     \<lparr>r_branches = rm_branches ex_remote,
      r_remote_refs =
        [(''main'', history (rm_branches ex_remote) ''main''),
         (''dev'', history (rm_branches ex_remote) ''main'')],
      r_head = ''main'',
      r_index = tree_of (history (rm_branches ex_remote) ''main''),
      r_origin = Some ''url''\<rparr>"

definition ex_existing :: world where
  "ex_existing =
     ex_world\<lparr>fs := (fs ex_world)(''/w/repo'' \<mapsto>
                 Dir False (checkout_tree (tree_of (history (rm_branches ex_remote) ''main'')))),
              repos := (repos ex_world)(''/w/repo'' \<mapsto> ex_repo)\<rparr>"

definition ex_push_refused :: "world \<Rightarrow> world" where
  "ex_push_refused w =
     w\<lparr>git_fault := (\<lambda>c. if c = Push then Some (GitCommandError ''authentication failed'') else None)\<rparr>"

text \<open>The caller's checkout with a working tree that differs from its head commit.\<close>

definition ex_dirty :: world where
  "ex_dirty =
     ex_existing\<lparr>fs := (fs ex_existing)(''/w/repo'' \<mapsto> Dir False [(''new.txt'', File False ''n'')])\<rparr>"

text \<open>
  The worlds of a run whose push the remote refuses: after the copy, after the staging
  and after the commit, for the clone and for the caller's checkout.
\<close>

definition ex_copied :: world where
  "ex_copied =
     snd (prepare_clone ''url'' ''/w/src'' ''/w/temp_repo'' ''main'' (ex_push_refused ex_world))"

definition ex_staged :: world where
  "ex_staged = snd (git_add_all ''/w/temp_repo'' ex_copied)"

definition ex_committed :: world where
  "ex_committed =
     snd (index_commit ''msg'' ''/w/temp_repo'' (print_line ''Files added to staging area'' ex_staged))"

definition ex_staged2 :: world where
  "ex_staged2 = snd (stage_existing ''/w/src'' ''/w/repo'' ''main'' (ex_push_refused ex_existing))"

definition ex_committed2 :: world where
  "ex_committed2 = snd (index_commit ''msg'' ''/w/repo'' ex_staged2)"

text \<open>A source folder whose only entry is a file with the name of a directory of the checkout.\<close>

definition ex_clash :: world where
  "ex_clash = ex_existing\<lparr>fs := (fs ex_existing)(''/w/src'' \<mapsto> Dir False [(''docs'', File False ''D'')])\<rparr>"

text \<open>A source folder that holds exactly what the remote's branch already holds.\<close>

definition ex_published :: world where
  "ex_published =
     ex_world\<lparr>fs := (fs ex_world)(''/w/src'' \<mapsto>
        Dir False [(''docs'', Dir False [(''old.md'', File False ''O'')]), (''r.txt'', File False ''R'')])\<rparr>"

section \<open>Cleanup\<close>

lemma rm_no_fault:
  "(\<forall>c. \<not> F c) \<Longrightarrow> rm_node F p n = (None, None)"
  "(\<forall>c. \<not> F c) \<Longrightarrow> rm_entries F p es = (None, [])"
  by (induction F p n and F p es rule: rm_node_rm_entries.induct)
     (auto simp: with_onerror_def handle_remove_readonly_def)

lemma safe_rmtree_returns: "fst (safe_rmtree p w) = Inr ()"
  by (auto simp: safe_rmtree_def split: option.splits prod.splits)

lemma safe_rmtree_out:
  "out (snd (safe_rmtree p w)) = out w
   \<or> (\<exists>e. out (snd (safe_rmtree p w)) =
            out w @ [''Warning: Could not completely remove '' @ p @ '': '' @ str_exc e])"
proof (cases "fs w p")
  case None
  then show ?thesis by (simp add: safe_rmtree_def exists_path_def)
next
  case (Some n)
  obtain r s where rs: "rmtree (os_fault w) p n = (r, s)" by (cases "rmtree (os_fault w) p n")
  show ?thesis
  proof (cases r)
    case None
    with Some rs show ?thesis by (simp add: safe_rmtree_def exists_path_def set_path_def)
  next
    case (Some e)
    with \<open>fs w p = Some n\<close> rs
    have "out (snd (safe_rmtree p w)) =
            out w @ [''Warning: Could not completely remove '' @ p @ '': '' @ str_exc e]"
      by (simp add: safe_rmtree_def exists_path_def set_path_def print_line_def)
    then show ?thesis by blast
  qed
qed

lemma safe_rmtree_no_fault:
  assumes "\<forall>c. \<not> os_fault w c" and "fs w p = Some (Dir ro es)"
  shows "fs (snd (safe_rmtree p w)) p = None \<and> out (snd (safe_rmtree p w)) = out w"
proof -
  have "rmtree (os_fault w) p (Dir ro es) = (None, None)"
    using rm_no_fault(1) [OF assms(1)] by (simp add: rmtree_def del: rm_node.simps)
  with assms(2) show ?thesis
    by (simp add: safe_rmtree_def exists_path_def set_path_def)
qed

lemma rm_readonly_file:
  "\<not> F (Chmod q) \<Longrightarrow>
     rm_node F q (File True c) =
       (if F (Unlink q) then (Some (PermissionError q), Some (File False c)) else (None, None))"
  by (simp add: with_onerror_def handle_remove_readonly_def)

text \<open>
  C9. \<^verbatim>\<open>safe_rmtree\<close> never raises. It prints nothing or exactly one warning. When
  the environment lets every call through, a directory is removed whole and silently,
  read-only entries included: a read-only file is made writable and its deletion tried
  once more, and only if that second attempt fails does the exception reach the warning.
\<close>

theorem safe_rmtree_never_raises:
  "fst (safe_rmtree p w) = Inr ()
   \<and> (out (snd (safe_rmtree p w)) = out w
      \<or> (\<exists>e. out (snd (safe_rmtree p w)) =
               out w @ [''Warning: Could not completely remove '' @ p @ '': '' @ str_exc e]))
   \<and> ((\<forall>c. \<not> os_fault w c) \<and> fs w p = Some (Dir ro es) \<longrightarrow>
        fs (snd (safe_rmtree p w)) p = None \<and> out (snd (safe_rmtree p w)) = out w)
   \<and> (\<not> F (Chmod q) \<longrightarrow>
        rm_node F q (File True c) =
          (if F (Unlink q) then (Some (PermissionError q), Some (File False c)) else (None, None)))"
  using safe_rmtree_returns [of p w] safe_rmtree_out [of p w] safe_rmtree_no_fault [of w p ro es]
    rm_readonly_file [of F q c]
  by blast

theorem safe_rmtree_never_raises_witness:
  "fst (safe_rmtree ''/w/temp_repo'' ex_leftover) = Inr ()
   \<and> fs (snd (safe_rmtree ''/w/temp_repo'' ex_leftover)) ''/w/temp_repo'' = None
   \<and> out (snd (safe_rmtree ''/w/temp_repo'' ex_leftover)) = out ex_leftover
   \<and> rm_node (\<lambda>c. c = Unlink ''/w/temp_repo/a'') ''/w/temp_repo/a'' (File True ''x'') =
       (Some (PermissionError ''/w/temp_repo/a''), Some (File False ''x''))"
  using safe_rmtree_never_raises [of "''/w/temp_repo''" ex_leftover False
      "[(''a'', File True ''x''), (''d'', Dir True [(''b'', File False ''y'')])]"
      "\<lambda>c. c = Unlink ''/w/temp_repo/a''" "''/w/temp_repo/a''" "''x''"]
  by (simp add: ex_leftover_def ex_world_def)

text \<open>
  C10. On a path that does not exist \<^verbatim>\<open>safe_rmtree\<close> changes nothing, prints
  nothing and raises nothing; the cleanup block then prints only its own two lines.
\<close>

theorem safe_rmtree_missing_noop:
  "fs w p = None \<Longrightarrow>
     safe_rmtree p w = (Inr (), w)
     \<and> cleanup p w =
         (Inr (), print_line ''Cleanup completed'' (print_line ''Performing cleanup...'' w))"
  by (simp add: safe_rmtree_def exists_path_def cleanup_def seq_def pr_def print_line_def)

theorem safe_rmtree_missing_noop_witness:
  "fs ex_world ''/w/temp_repo'' = None
   \<and> safe_rmtree ''/w/temp_repo'' ex_world = (Inr (), ex_world)
   \<and> out (snd (cleanup ''/w/temp_repo'' ex_world)) = [''Performing cleanup...'', ''Cleanup completed'']"
proof -
  have h: "fs ex_world ''/w/temp_repo'' = None" by (simp add: ex_world_def)
  show ?thesis using h safe_rmtree_missing_noop [OF h]
    by (simp add: print_line_def ex_world_def)
qed

lemma rm_done:
  "rm_node F p n = (None, s) \<Longrightarrow> s = None"
  "rm_entries F p es = (None, rest) \<Longrightarrow> rest = []"
  by (induction F p n and F p es arbitrary: s and rest rule: rm_node_rm_entries.induct)
     (auto simp: with_onerror_def handle_remove_readonly_def
        split: if_splits sum.splits option.splits prod.splits node.splits)

lemma safe_rmtree_gone_or_warned:
  "fs (snd (safe_rmtree p w)) p = None
   \<or> (\<exists>e. out (snd (safe_rmtree p w)) =
            out w @ [''Warning: Could not completely remove '' @ p @ '': '' @ str_exc e])"
proof (cases "fs w p")
  case None
  then show ?thesis by (simp add: safe_rmtree_def exists_path_def)
next
  case (Some n)
  obtain r s where rs: "rmtree (os_fault w) p n = (r, s)" by (cases "rmtree (os_fault w) p n")
  show ?thesis
  proof (cases r)
    case None
    with rs have "s = None"
      by (cases n) (auto simp: rmtree_def with_onerror_def handle_remove_readonly_def
            dest: rm_done(1) split: if_splits simp del: rm_node.simps)
    with None Some rs show ?thesis by (simp add: safe_rmtree_def exists_path_def set_path_def)
  next
    case (Some e)
    with \<open>fs w p = Some n\<close> rs
    have "out (snd (safe_rmtree p w)) =
            out w @ [''Warning: Could not completely remove '' @ p @ '': '' @ str_exc e]"
      by (simp add: safe_rmtree_def exists_path_def set_path_def print_line_def)
    then show ?thesis by blast
  qed
qed

lemma cleanup_returns: "fst (cleanup p w) = Inr ()"
  using safe_rmtree_returns [of p "print_line ''Performing cleanup...'' w"]
  by (auto simp: cleanup_def seq_def pr_def split: prod.splits sum.splits)

lemma cleanup_out:
  "out (snd (cleanup p w)) =
     out (snd (safe_rmtree p (print_line ''Performing cleanup...'' w))) @ [''Cleanup completed'']"
  "fs (snd (cleanup p w)) = fs (snd (safe_rmtree p (print_line ''Performing cleanup...'' w)))"
  using safe_rmtree_returns [of p "print_line ''Performing cleanup...'' w"]
  by (auto simp: cleanup_def seq_def pr_def print_line_def split: prod.splits sum.splits)

lemma cleanup_result:
  "last (out (snd (cleanup p w))) = ''Cleanup completed''
   \<and> (fs (snd (cleanup p w)) p = None
      \<or> (\<exists>e. (''Warning: Could not completely remove '' @ p @ '': '' @ str_exc e)
              \<in> set (out (snd (cleanup p w)))))"
  using safe_rmtree_gone_or_warned [of p "print_line ''Performing cleanup...'' w"]
  by (auto simp: cleanup_out)

section \<open>Exceptions never leave the operations\<close>

lemma try_except_total:
  "(\<And>e w. fst (h e w) = Inr ()) \<Longrightarrow> fst (try_except f h w) = Inr ()"
  by (auto simp: try_except_def split: prod.splits sum.splits)

lemma try_finally_total:
  "fst (f w) = Inr () \<Longrightarrow> fst (g (snd (f w))) = Inr () \<Longrightarrow> try_finally f g w = g (snd (f w))"
  by (auto simp: try_finally_def split: prod.splits sum.splits)

lemma clone_handler_total:
  "fst ((if is_GitCommandError e then pr (''Git command error: '' @ str_exc e)
         else pr (''Error: '' @ str_exc e)) w) = Inr ()"
  by (simp add: pr_def)

lemma clone_op_is_cleanup:
  "clone_and_push_folder_fixed url l c m b w =
     cleanup (abspath w c)
       (snd (try_except (clone_and_push_body url (abspath w l) (abspath w c) m b)
          (\<lambda>e. if is_GitCommandError e then pr (''Git command error: '' @ str_exc e)
               else pr (''Error: '' @ str_exc e)) w))"
  unfolding clone_and_push_folder_fixed_def
  by (rule try_finally_total) (simp_all add: try_except_total clone_handler_total cleanup_returns)

lemma clone_op_returns: "fst (clone_and_push_folder_fixed url l c m b w) = Inr ()"
  by (simp add: clone_op_is_cleanup cleanup_returns)

lemma existing_op_returns: "fst (push_to_existing_repo l rp m b w) = Inr ()"
  unfolding push_to_existing_repo_def by (rule try_except_total) (simp add: pr_def)

lemma clone_op_on_error:
  "clone_and_push_body url (abspath w l) (abspath w c) m b w = (Inl e, w') \<Longrightarrow>
     clone_and_push_folder_fixed url l c m b w =
       cleanup (abspath w c)
         (print_line ((if is_GitCommandError e then ''Git command error: '' else ''Error: '')
            @ str_exc e) w')"
  by (simp add: clone_op_is_cleanup try_except_def pr_def)

lemma existing_op_on_error:
  "push_to_existing_body (abspath w l) (abspath w rp) m b w = (Inl e, w') \<Longrightarrow>
     push_to_existing_repo l rp m b w = (Inr (), print_line (''Error: '' @ str_exc e) w')"
  by (simp add: push_to_existing_repo_def try_except_def pr_def)

text \<open>
  C8. Neither operation lets an exception out, whatever the inputs and whatever the
  environment does. When the \<^verbatim>\<open>try\<close> block raises, the operation prints one line
  with the exception's text (and, for the clone, goes on to the cleanup); the caller
  gets the same return value as after a success.
\<close>

theorem operations_never_raise:
  "fst (clone_and_push_folder_fixed url l c m b w) = Inr ()
   \<and> fst (push_to_existing_repo l rp m b w) = Inr ()
   \<and> (clone_and_push_body url (abspath w l) (abspath w c) m b w = (Inl e, w') \<longrightarrow>
        clone_and_push_folder_fixed url l c m b w =
          cleanup (abspath w c)
            (print_line ((if is_GitCommandError e then ''Git command error: '' else ''Error: '')
               @ str_exc e) w'))
   \<and> (push_to_existing_body (abspath w l) (abspath w rp) m b w = (Inl e', w'') \<longrightarrow>
        push_to_existing_repo l rp m b w = (Inr (), print_line (''Error: '' @ str_exc e') w''))"
  by (simp add: clone_op_returns existing_op_returns clone_op_on_error existing_op_on_error)

lemma ex_clone_body_fails:
  "clone_and_push_body ''nowhere'' (abspath ex_world ''src'') (abspath ex_world ''temp_repo'')
       ''msg'' ''main'' ex_world =
     (Inl (GitCommandError ''repository nowhere not found''),
      print_line ''Cloning repository from nowhere...''
        (print_line ''Clone directory: /w/temp_repo'' (print_line ''Local folder: /w/src'' ex_world)))"
  by (simp add: clone_and_push_body_def prepare_clone_def acquire_clone_def seq_def pr_def
        skip_def clone_from_def
        exists_path_def print_line_def abspath_def join_def ex_world_def)

lemma ex_existing_body_fails:
  "push_to_existing_body (abspath ex_world ''src'') (abspath ex_world ''temp_repo'')
       ''msg'' ''main'' ex_world =
     (Inl (NoSuchPathError ''/w/temp_repo''),
      print_line ''Target repo: /w/temp_repo'' (print_line ''Source folder: /w/src'' ex_world))"
  by (simp add: push_to_existing_body_def stage_existing_def seq_def pr_def open_repo_def
        print_line_def abspath_def join_def ex_world_def)

theorem operations_never_raise_witness:
  "clone_and_push_folder_fixed ''nowhere'' ''src'' ''temp_repo'' ''msg'' ''main'' ex_world =
     cleanup ''/w/temp_repo''
       (print_line ''Git command error: repository nowhere not found''
         (print_line ''Cloning repository from nowhere...''
           (print_line ''Clone directory: /w/temp_repo'' (print_line ''Local folder: /w/src'' ex_world))))
   \<and> push_to_existing_repo ''src'' ''temp_repo'' ''msg'' ''main'' ex_world =
       (Inr (), print_line ''Error: /w/temp_repo''
         (print_line ''Target repo: /w/temp_repo'' (print_line ''Source folder: /w/src'' ex_world)))"
  using operations_never_raise [of "''nowhere''" "''src''" "''temp_repo''" "''msg''" "''main''"
      ex_world "''temp_repo''" "GitCommandError ''repository nowhere not found''"
      "print_line ''Cloning repository from nowhere...''
        (print_line ''Clone directory: /w/temp_repo'' (print_line ''Local folder: /w/src'' ex_world))"
      "NoSuchPathError ''/w/temp_repo''"
      "print_line ''Target repo: /w/temp_repo'' (print_line ''Source folder: /w/src'' ex_world)"]
    ex_clone_body_fails ex_existing_body_fails
  by (simp add: abspath_def join_def ex_world_def)

section \<open>Cleanup on every path\<close>

lemma dom_le_refl: "dom_le w w"
  by (simp add: dom_le_def)

lemma dom_le_trans: "dom_le a b \<Longrightarrow> dom_le b c \<Longrightarrow> dom_le a c"
  by (simp add: dom_le_def)

lemma grows_seq: "grows f \<Longrightarrow> grows g \<Longrightarrow> grows (seq f g)"
  unfolding grows_def seq_def
  by (auto split: prod.splits sum.splits intro: dom_le_trans) (metis dom_le_trans snd_conv)+

lemma grows_try_except: "grows f \<Longrightarrow> (\<And>e. grows (h e)) \<Longrightarrow> grows (try_except f h)"
  unfolding grows_def try_except_def
  by (auto split: prod.splits sum.splits) (metis dom_le_trans snd_conv)+

lemma grows_pr: "grows (pr s)"
  by (simp add: grows_def pr_def print_line_def dom_le_def)

lemma grows_skip: "grows skip"
  by (simp add: grows_def skip_def dom_le_def)

lemma grows_raise: "grows (raise e)"
  by (simp add: grows_def raise_def dom_le_def)

lemma grows_if: "grows f \<Longrightarrow> grows g \<Longrightarrow> grows (\<lambda>w. if c w then f w else g w)"
  by (simp add: grows_def)

lemma grows_open_repo: "grows (open_repo p)"
  by (auto simp: grows_def open_repo_def dom_le_refl split: option.splits node.splits)

lemma grows_git_checkout: "grows (git_checkout b p)"
  by (auto simp: grows_def git_checkout_def switch_to_def dom_le_def set_worktree_def
      split: option.splits)

lemma grows_copy2_at: "grows (copy2_at root item a c)"
  by (auto simp: grows_def copy2_at_def dom_le_def set_worktree_def
      split: option.splits node.splits sum.splits)

lemma grows_copytree_at: "grows (copytree_at ok root item a ses)"
  by (auto simp: grows_def copytree_at_def dom_le_def set_worktree_def
      split: option.splits node.splits prod.splits)

lemma grows_copy_item_existing: "grows (copy_item_existing p x)"
  by (cases x, case_tac b)
     (auto intro!: grows_seq grows_pr grows_if grows_copytree_at grows_copy2_at)

lemma grows_copy_items_existing: "grows (copy_items_existing p items)"
  by (induction items) (auto intro!: grows_seq grows_skip grows_copy_item_existing)

lemma grows_git_add_all: "grows (git_add_all p)"
  by (auto simp: grows_def git_add_all_def dom_le_def split: option.splits)

lemma grows_index_commit: "grows (index_commit m p)"
  by (auto simp: grows_def index_commit_def dom_le_def split: option.splits)

lemma grows_push_origin: "grows (push_origin p)"
  by (auto simp: grows_def push_origin_def dom_le_def split: option.splits)

lemma grows_merge_existing: "grows (merge_existing l p)"
  unfolding merge_existing_def grows_def
  using grows_copy_items_existing grows_raise by (auto simp: grows_def split: sum.splits)

lemma grows_existing_body: "grows (push_to_existing_body l p m b)"
  unfolding push_to_existing_body_def stage_existing_def switch_branch_existing_def
    publish_existing_def
  by (intro grows_seq grows_pr grows_if grows_open_repo grows_git_checkout grows_skip
        grows_merge_existing grows_git_add_all grows_index_commit grows_push_origin)

lemma existing_op_keeps: "dom_le w (snd (push_to_existing_repo l rp m b w))"
  using grows_try_except [OF grows_existing_body, of "\<lambda>e. pr (''Error: '' @ str_exc e)"] grows_pr
  by (simp add: push_to_existing_repo_def grows_def)

text \<open>
  C2. Every run of \<^verbatim>\<open>clone_and_push_folder_fixed\<close> ends in its cleanup block,
  applied to whatever world the \<^verbatim>\<open>try\<close> block and its handlers leave: the last line
  printed is the cleanup's, and afterwards the clone directory is gone or a warning about
  it was printed. \<^verbatim>\<open>push_to_existing_repo\<close> removes no directory and no checkout:
  whatever existed before it exists after it.
\<close>

theorem cleanup_on_every_path:
  "clone_and_push_folder_fixed url l c m b w =
     cleanup (abspath w c)
       (snd (try_except (clone_and_push_body url (abspath w l) (abspath w c) m b)
          (\<lambda>e. if is_GitCommandError e then pr (''Git command error: '' @ str_exc e)
               else pr (''Error: '' @ str_exc e)) w))
   \<and> fst (clone_and_push_folder_fixed url l c m b w) = Inr ()
   \<and> last (out (snd (clone_and_push_folder_fixed url l c m b w))) = ''Cleanup completed''
   \<and> (fs (snd (clone_and_push_folder_fixed url l c m b w)) (abspath w c) = None
      \<or> (\<exists>e. (''Warning: Could not completely remove '' @ abspath w c @ '': '' @ str_exc e)
              \<in> set (out (snd (clone_and_push_folder_fixed url l c m b w)))))
   \<and> (fs w q \<noteq> None \<longrightarrow> fs (snd (push_to_existing_repo l' rp m' b' w)) q \<noteq> None)
   \<and> (repos w q \<noteq> None \<longrightarrow> repos (snd (push_to_existing_repo l' rp m' b' w)) q \<noteq> None)"
proof -
  have "dom_le w (snd (push_to_existing_repo l' rp m' b' w))"
    by (rule existing_op_keeps)
  then show ?thesis
    using clone_op_is_cleanup [of url l c m b w] cleanup_result cleanup_returns
    by (simp add: dom_le_def)
qed

theorem cleanup_on_every_path_witness:
  "fs ex_existing ''/w/repo'' \<noteq> None
   \<and> fs (snd (push_to_existing_repo ''src'' ''repo'' ''msg'' ''main'' ex_existing)) ''/w/repo'' \<noteq> None
   \<and> repos ex_existing ''/w/repo'' \<noteq> None
   \<and> repos (snd (push_to_existing_repo ''src'' ''repo'' ''msg'' ''main'' ex_existing)) ''/w/repo'' \<noteq> None
   \<and> last (out (snd (clone_and_push_folder_fixed ''url'' ''src'' ''temp_repo'' ''msg'' ''main''
              (ex_push_refused ex_world)))) = ''Cleanup completed''"
proof -
  have h: "fs ex_existing ''/w/repo'' \<noteq> None" "repos ex_existing ''/w/repo'' \<noteq> None"
    by (simp_all add: ex_existing_def ex_world_def)
  have a: "last (out (snd (clone_and_push_folder_fixed ''url'' ''src'' ''temp_repo'' ''msg'' ''main''
              (ex_push_refused ex_world)))) = ''Cleanup completed''"
    using cleanup_on_every_path [of "''url''" "''src''" "''temp_repo''" "''msg''" "''main''"
      "ex_push_refused ex_world" "''/w/repo''" "''src''" "''repo''" "''msg''" "''main''"]
    by (elim conjE) assumption
  show ?thesis
    using h a cleanup_on_every_path [of "''url''" "''src''" "''temp_repo''" "''msg''" "''main''"
      ex_existing "''/w/repo''" "''src''" "''repo''" "''msg''" "''main''"]
    by blast
qed

section \<open>Commit and push\<close>

lemma print_line_fields [simp]:
  "fs (print_line s w) = fs w" "repos (print_line s w) = repos w"
  "remotes (print_line s w) = remotes w" "events (print_line s w) = events w"
  "git_fault (print_line s w) = git_fault w" "os_fault (print_line s w) = os_fault w"
  "cwd (print_line s w) = cwd w" "out (print_line s w) = out w @ [s]"
  by (simp_all add: print_line_def)

lemma worktree_repos_upd [simp]: "worktree (w\<lparr>repos := x\<rparr>) p = worktree w p"
  by (simp add: worktree_def)

lemma worktree_print [simp]: "worktree (print_line s w) p = worktree w p"
  by (simp add: worktree_def)

lemma has_changes_print [simp]: "has_changes (print_line s w) p = has_changes w p"
  by (simp add: has_changes_def split: option.splits)

lemma has_changes_repo: "has_changes w p \<Longrightarrow> \<exists>r. repos w p = Some r"
  by (auto simp: has_changes_def split: option.splits)

lemma git_add_all_ok:
  "git_add_all p w = (Inr (), w1) \<Longrightarrow>
     \<exists>r. repos w p = Some r \<and> w1 = w\<lparr>repos := (repos w)(p \<mapsto> r\<lparr>r_index := worktree w p\<rparr>)\<rparr>"
  by (auto simp: git_add_all_def split: option.splits)

lemma has_changes_after_add:
  assumes "git_add_all p w = (Inr (), w1)" and "repos w p = Some r"
  shows "has_changes w1 p = (set (files_of [] (worktree w p)) \<noteq> set (files_of [] (head_tree r)))"
proof -
  from assms have w1: "w1 = w\<lparr>repos := (repos w)(p \<mapsto> r\<lparr>r_index := worktree w p\<rparr>)\<rparr>"
    by (auto dest: git_add_all_ok)
  show ?thesis
    unfolding w1 by (simp add: has_changes_def is_dirty_def untracked_files_def head_tree_def)
qed

lemma push_origin_commits:
  "filter is_commit (events (snd (push_origin p w))) = filter is_commit (events w)"
  by (auto simp: push_origin_def split: option.splits)

lemma push_origin_commits_res:
  "push_origin p w = (res, w') \<Longrightarrow> filter is_commit (events w') = filter is_commit (events w)"
  using push_origin_commits [of p w] by simp

lemma push_origin_fails: "push_origin p w = (Inl e, w') \<Longrightarrow> w' = w"
  by (auto simp: push_origin_def split: option.splits)

lemma push_clone_commits:
  "filter is_commit (events (snd (push_clone p w))) = filter is_commit (events w)"
  using push_origin_commits [of p w]
  by (auto simp: push_clone_def try_except_def seq_def pr_def raise_def
      split: prod.splits sum.splits)

lemma publish_clone_no_changes:
  "git_add_all p w = (Inr (), w1) \<Longrightarrow> \<not> has_changes w1 p \<Longrightarrow>
     publish_clone msg p w =
       (Inr (), print_line ''No changes to commit'' (print_line ''Files added to staging area'' w1))"
  by (simp add: publish_clone_def seq_def pr_def)

lemma publish_existing_no_changes:
  "\<not> has_changes w p \<Longrightarrow> publish_existing msg p w = (Inr (), print_line ''No changes to commit'' w)"
  by (simp add: publish_existing_def pr_def)

lemma publish_clone_commits:
  assumes "git_add_all p w = (Inr (), w1)"
  shows "filter is_commit (events (snd (publish_clone msg p w))) =
           filter is_commit (events w) @
             (if has_changes w1 p \<and> git_fault w Commit = None then [EvCommit p msg] else [])"
proof -
  have e1: "events w1 = events w" "git_fault w1 = git_fault w"
    using assms by (auto dest: git_add_all_ok)
  show ?thesis
  proof (cases "has_changes w1 p")
    case False
    with assms e1 show ?thesis
      by (simp add: publish_clone_def seq_def pr_def)
  next
    case True
    then obtain r where r: "repos w1 p = Some r" using has_changes_repo by blast
    show ?thesis
    proof (cases "git_fault w Commit")
      case None
      with True r e1 assms show ?thesis
        using push_clone_commits
        by (simp add: publish_clone_def seq_def pr_def index_commit_def)
    next
      case (Some e)
      with True r e1 assms show ?thesis
        by (simp add: publish_clone_def seq_def pr_def index_commit_def)
    qed
  qed
qed

lemma publish_existing_commits:
  "filter is_commit (events (snd (publish_existing msg p w))) =
     filter is_commit (events w) @
       (if has_changes w p \<and> git_fault w Commit = None then [EvCommit p msg] else [])"
proof (cases "has_changes w p")
  case False
  then show ?thesis by (simp add: publish_existing_def pr_def)
next
  case True
  then obtain r where r: "repos w p = Some r" using has_changes_repo by blast
  show ?thesis
  proof (cases "git_fault w Commit")
    case None
    with True r show ?thesis
      by (auto simp: publish_existing_def seq_def pr_def index_commit_def
          dest!: push_origin_commits_res split: prod.splits sum.splits)
  next
    case (Some e)
    with True r show ?thesis
      by (simp add: publish_existing_def seq_def pr_def index_commit_def)
  qed
qed

text \<open>
  C4. After staging, the tree has changes exactly when the tracked files of the working
  tree differ from those of the head commit. Without changes both operations print the
  notice, return normally and leave the world as the staging left it. The commits made by
  the publishing step are: one, with the supplied message, if there are changes (and
  \<^verbatim>\<open>repo.index.commit\<close> itself does not fail), none otherwise.
\<close>

theorem commit_iff_changes:
  "(git_add_all p w = (Inr (), w1) \<and> repos w p = Some r \<longrightarrow>
      has_changes w1 p =
        (set (files_of [] (worktree w p)) \<noteq> set (files_of [] (head_tree r))))
   \<and> (git_add_all p w = (Inr (), w1) \<and> \<not> has_changes w1 p \<longrightarrow>
        publish_clone msg p w =
          (Inr (), print_line ''No changes to commit''
                     (print_line ''Files added to staging area'' w1)))
   \<and> (git_add_all p w = (Inr (), w1) \<longrightarrow>
        filter is_commit (events (snd (publish_clone msg p w))) =
          filter is_commit (events w) @
            (if has_changes w1 p \<and> git_fault w Commit = None then [EvCommit p msg] else []))
   \<and> (\<not> has_changes w p \<longrightarrow>
        publish_existing msg p w = (Inr (), print_line ''No changes to commit'' w))
   \<and> filter is_commit (events (snd (publish_existing msg p w))) =
        filter is_commit (events w) @
          (if has_changes w p \<and> git_fault w Commit = None then [EvCommit p msg] else [])"
  using has_changes_after_add [of p w w1 r] publish_clone_no_changes [of p w w1 msg]
    publish_clone_commits [of p w w1 msg] publish_existing_no_changes [of w p msg]
    publish_existing_commits [of msg p w]
  by blast

theorem commit_iff_changes_witness:
  "git_add_all ''/w/repo'' ex_dirty = (Inr (), snd (git_add_all ''/w/repo'' ex_dirty))
   \<and> has_changes (snd (git_add_all ''/w/repo'' ex_dirty)) ''/w/repo''
   \<and> filter is_commit (events (snd (publish_clone ''msg'' ''/w/repo'' ex_dirty))) =
       [EvCommit ''/w/repo'' ''msg'']
   \<and> \<not> has_changes ex_existing ''/w/repo''
   \<and> publish_existing ''msg'' ''/w/repo'' ex_existing =
       (Inr (), print_line ''No changes to commit'' ex_existing)"
proof -
  have a: "git_add_all ''/w/repo'' ex_dirty = (Inr (), snd (git_add_all ''/w/repo'' ex_dirty))"
    by (simp add: git_add_all_def ex_dirty_def ex_existing_def ex_world_def)
  have b: "has_changes (snd (git_add_all ''/w/repo'' ex_dirty)) ''/w/repo''"
    by code_simp
  have c: "git_fault ex_dirty Commit = None" "events ex_dirty = []"
    by (simp_all add: ex_dirty_def ex_existing_def ex_world_def)
  have d: "\<not> has_changes ex_existing ''/w/repo''"
    by code_simp
  from a b c
    commit_iff_changes [of "''/w/repo''" ex_dirty "snd (git_add_all ''/w/repo'' ex_dirty)" ex_repo "''msg''"]
  have e: "filter is_commit (events (snd (publish_clone ''msg'' ''/w/repo'' ex_dirty))) =
       [EvCommit ''/w/repo'' ''msg'']"
    by simp
  from d commit_iff_changes [of "''/w/repo''" ex_existing ex_existing ex_repo "''msg''"]
  have f: "publish_existing ''msg'' ''/w/repo'' ex_existing =
       (Inr (), print_line ''No changes to commit'' ex_existing)"
    by blast
  from a b d e f show ?thesis by blast
qed

section \<open>A push that fails\<close>

lemma seq_ok: "f w = (Inr (), w') \<Longrightarrow> seq f g w = g w'"
  by (simp add: seq_def)

lemma seq_fails: "f w = (Inl e, w') \<Longrightarrow> seq f g w = (Inl e, w')"
  by (simp add: seq_def)

lemma push_clone_on_failure:
  "push_origin p w = (Inl e, w') \<Longrightarrow>
     push_clone p w =
       (if is_GitCommandError e
        then (Inr (), print_line ''You may need to configure authentication or check repository permissions''
                        (print_line (''Push failed: '' @ str_exc e) w))
        else (Inl e, w))"
  by (frule push_origin_fails) (simp add: push_clone_def try_except_def seq_def pr_def raise_def)

lemma publish_clone_push_fails:
  assumes "git_add_all p w = (Inr (), w1)" and "has_changes w1 p"
    and "index_commit msg p (print_line ''Files added to staging area'' w1) = (Inr (), w2)"
    and "push_origin p (print_line (''Changes committed: '' @ msg) w2) = (Inl e, w3)"
  shows "publish_clone msg p w =
           (if is_GitCommandError e
            then (Inr (), print_line ''You may need to configure authentication or check repository permissions''
                            (print_line (''Push failed: '' @ str_exc e)
                               (print_line (''Changes committed: '' @ msg) w2)))
            else (Inl e, print_line (''Changes committed: '' @ msg) w2))"
  using assms push_clone_on_failure [OF assms(4)]
  by (simp add: publish_clone_def seq_def pr_def)

lemma clone_op_push_fails:
  assumes "prepare_clone url (abspath w l) (abspath w c) b w = (Inr (), w0)"
    and "git_add_all (abspath w c) w0 = (Inr (), w1)" and "has_changes w1 (abspath w c)"
    and "index_commit msg (abspath w c) (print_line ''Files added to staging area'' w1) = (Inr (), w2)"
    and "push_origin (abspath w c) (print_line (''Changes committed: '' @ msg) w2) = (Inl e, w3)"
  shows "clone_and_push_folder_fixed url l c msg b w =
           cleanup (abspath w c)
             (if is_GitCommandError e
              then print_line ''You may need to configure authentication or check repository permissions''
                     (print_line (''Push failed: '' @ str_exc e)
                        (print_line (''Changes committed: '' @ msg) w2))
              else print_line (''Error: '' @ str_exc e)
                     (print_line (''Changes committed: '' @ msg) w2))"
proof -
  have "clone_and_push_body url (abspath w l) (abspath w c) msg b w =
          publish_clone msg (abspath w c) w0"
    using assms(1) by (simp add: clone_and_push_body_def seq_ok)
  with publish_clone_push_fails [OF assms(2-5)] show ?thesis
    by (auto simp: clone_op_is_cleanup try_except_def pr_def)
qed

lemma existing_op_push_fails:
  assumes "stage_existing (abspath w l) (abspath w rp) b w = (Inr (), w0)"
    and "has_changes w0 (abspath w rp)"
    and "index_commit msg (abspath w rp) w0 = (Inr (), w2)"
    and "push_origin (abspath w rp) (print_line (''Committed: '' @ msg) w2) = (Inl e, w3)"
  shows "push_to_existing_repo l rp msg b w =
           (Inr (), print_line (''Error: '' @ str_exc e) (print_line (''Committed: '' @ msg) w2))"
proof -
  have "push_to_existing_body (abspath w l) (abspath w rp) msg b w =
          (Inl e, print_line (''Committed: '' @ msg) w2)"
    using assms push_origin_fails [OF assms(4)]
    by (simp add: push_to_existing_body_def seq_ok publish_existing_def seq_def pr_def)
  then show ?thesis by (rule existing_op_on_error)
qed

lemma index_commit_head:
  assumes "index_commit msg p w = (Inr (), w2)"
  shows "\<exists>r r2. repos w p = Some r \<and> repos w2 p = Some r2 \<and> r_head r2 = r_head r
        \<and> history (r_branches r2) (r_head r) =
            \<lparr>c_message = msg, c_tree = r_index r\<rparr> # history (r_branches r) (r_head r)
        \<and> events w2 = events w @ [EvCommit p msg]"
proof -
  from assms obtain r where r: "repos w p = Some r" and f: "git_fault w Commit = None"
    by (auto simp: index_commit_def split: option.splits)
  define r2 where "r2 = r\<lparr>r_branches :=
      AList.update (r_head r)
        (\<lparr>c_message = msg, c_tree = r_index r\<rparr> # history (r_branches r) (r_head r))
        (r_branches r)\<rparr>"
  from assms r f have w2: "w2 = w\<lparr>repos := (repos w)(p \<mapsto> r2), events := events w @ [EvCommit p msg]\<rparr>"
    by (simp add: index_commit_def r2_def)
  have "history (r_branches r2) (r_head r) =
          \<lparr>c_message = msg, c_tree = r_index r\<rparr> # history (r_branches r) (r_head r)"
    by (simp add: r2_def history_def update_conv')
  moreover have "r_head r2 = r_head r" by (simp add: r2_def)
  ultimately show ?thesis using r w2 by simp
qed

lemma safe_rmtree_repos:
  "fs w p \<noteq> None \<Longrightarrow> fs (snd (safe_rmtree p w)) p = None \<Longrightarrow>
     repos (snd (safe_rmtree p w)) p = None"
  by (auto simp: safe_rmtree_def exists_path_def set_path_def
      split: option.splits prod.splits if_splits)

lemma cleanup_repos:
  assumes "fs w p \<noteq> None" and "fs (snd (cleanup p w)) p = None"
  shows "repos (snd (cleanup p w)) p = None"
proof -
  have "repos (snd (cleanup p w)) = repos (snd (safe_rmtree p (print_line ''Performing cleanup...'' w)))"
    using safe_rmtree_returns [of p "print_line ''Performing cleanup...'' w"]
    by (auto simp: cleanup_def seq_def pr_def split: prod.splits sum.splits)
  then show ?thesis
    using assms safe_rmtree_repos [of "print_line ''Performing cleanup...'' w" p]
    by (simp add: cleanup_out)
qed

text \<open>
  C6, as amended. A push that raises changes nothing: there is no rollback. In
  \<^verbatim>\<open>clone_and_push_folder_fixed\<close> the exception is printed (by the push's own
  handler if it is a \<^verbatim>\<open>GitCommandError\<close>, by the outer one otherwise), the
  operation goes on to its cleanup and returns normally; once the cleanup has removed the
  clone directory, the checkout and the commit in it are gone. In
  \<^verbatim>\<open>push_to_existing_repo\<close> the exception is printed by the handler of the
  operation, which returns normally, and the commit stays on top of the current branch of
  the caller's checkout.
\<close>

theorem push_failure_is_reported:
  "(push_origin p w = (Inl e, w') \<longrightarrow> w' = w)
   \<and> (prepare_clone url (abspath w l) (abspath w c) b w = (Inr (), w0)
      \<and> git_add_all (abspath w c) w0 = (Inr (), w1) \<and> has_changes w1 (abspath w c)
      \<and> index_commit msg (abspath w c) (print_line ''Files added to staging area'' w1) = (Inr (), w2)
      \<and> push_origin (abspath w c) (print_line (''Changes committed: '' @ msg) w2) = (Inl e, w3)
      \<longrightarrow>
        clone_and_push_folder_fixed url l c msg b w =
          cleanup (abspath w c)
            (if is_GitCommandError e
             then print_line ''You may need to configure authentication or check repository permissions''
                    (print_line (''Push failed: '' @ str_exc e)
                       (print_line (''Changes committed: '' @ msg) w2))
             else print_line (''Error: '' @ str_exc e)
                    (print_line (''Changes committed: '' @ msg) w2))
        \<and> fst (clone_and_push_folder_fixed url l c msg b w) = Inr ()
        \<and> (fs w2 (abspath w c) \<noteq> None
             \<and> fs (snd (clone_and_push_folder_fixed url l c msg b w)) (abspath w c) = None
           \<longrightarrow> repos (snd (clone_and_push_folder_fixed url l c msg b w)) (abspath w c) = None))
   \<and> (stage_existing (abspath v l2) (abspath v rp) b2 v = (Inr (), v0)
      \<and> has_changes v0 (abspath v rp)
      \<and> index_commit m2 (abspath v rp) v0 = (Inr (), v2)
      \<and> push_origin (abspath v rp) (print_line (''Committed: '' @ m2) v2) = (Inl e2, v3)
      \<longrightarrow>
        push_to_existing_repo l2 rp m2 b2 v =
          (Inr (), print_line (''Error: '' @ str_exc e2) (print_line (''Committed: '' @ m2) v2))
        \<and> (\<exists>r r2. repos v0 (abspath v rp) = Some r
              \<and> repos (snd (push_to_existing_repo l2 rp m2 b2 v)) (abspath v rp) = Some r2
              \<and> r_head r2 = r_head r
              \<and> history (r_branches r2) (r_head r) =
                  \<lparr>c_message = m2, c_tree = r_index r\<rparr> # history (r_branches r) (r_head r)))"
proof (intro conjI impI)
  assume "push_origin p w = (Inl e, w')"
  then show "w' = w" by (rule push_origin_fails)
next
  assume h: "prepare_clone url (abspath w l) (abspath w c) b w = (Inr (), w0)
      \<and> git_add_all (abspath w c) w0 = (Inr (), w1) \<and> has_changes w1 (abspath w c)
      \<and> index_commit msg (abspath w c) (print_line ''Files added to staging area'' w1) = (Inr (), w2)
      \<and> push_origin (abspath w c) (print_line (''Changes committed: '' @ msg) w2) = (Inl e, w3)"
  then have eq: "clone_and_push_folder_fixed url l c msg b w =
          cleanup (abspath w c)
            (if is_GitCommandError e
             then print_line ''You may need to configure authentication or check repository permissions''
                    (print_line (''Push failed: '' @ str_exc e)
                       (print_line (''Changes committed: '' @ msg) w2))
             else print_line (''Error: '' @ str_exc e)
                    (print_line (''Changes committed: '' @ msg) w2))"
    using clone_op_push_fails [of url w l c b w0 w1 msg w2 e w3] by blast
  show "clone_and_push_folder_fixed url l c msg b w =
          cleanup (abspath w c)
            (if is_GitCommandError e
             then print_line ''You may need to configure authentication or check repository permissions''
                    (print_line (''Push failed: '' @ str_exc e)
                       (print_line (''Changes committed: '' @ msg) w2))
             else print_line (''Error: '' @ str_exc e)
                    (print_line (''Changes committed: '' @ msg) w2))"
    by (rule eq)
  show "fst (clone_and_push_folder_fixed url l c msg b w) = Inr ()"
    by (rule clone_op_returns)
  assume g: "fs w2 (abspath w c) \<noteq> None
             \<and> fs (snd (clone_and_push_folder_fixed url l c msg b w)) (abspath w c) = None"
  show "repos (snd (clone_and_push_folder_fixed url l c msg b w)) (abspath w c) = None"
    unfolding eq using g unfolding eq
    by (intro cleanup_repos) (auto split: if_splits)
next
  assume h: "stage_existing (abspath v l2) (abspath v rp) b2 v = (Inr (), v0)
      \<and> has_changes v0 (abspath v rp)
      \<and> index_commit m2 (abspath v rp) v0 = (Inr (), v2)
      \<and> push_origin (abspath v rp) (print_line (''Committed: '' @ m2) v2) = (Inl e2, v3)"
  then have eq: "push_to_existing_repo l2 rp m2 b2 v =
          (Inr (), print_line (''Error: '' @ str_exc e2) (print_line (''Committed: '' @ m2) v2))"
    using existing_op_push_fails [of v l2 rp b2 v0 m2 v2 e2 v3] by blast
  show "push_to_existing_repo l2 rp m2 b2 v =
          (Inr (), print_line (''Error: '' @ str_exc e2) (print_line (''Committed: '' @ m2) v2))"
    by (rule eq)
  from h index_commit_head [of m2 "abspath v rp" v0 v2]
  show "\<exists>r r2. repos v0 (abspath v rp) = Some r
              \<and> repos (snd (push_to_existing_repo l2 rp m2 b2 v)) (abspath v rp) = Some r2
              \<and> r_head r2 = r_head r
              \<and> history (r_branches r2) (r_head r) =
                  \<lparr>c_message = m2, c_tree = r_index r\<rparr> # history (r_branches r) (r_head r)"
    unfolding eq by auto
qed

lemma ex_clone_steps:
  "prepare_clone ''url'' ''/w/src'' ''/w/temp_repo'' ''main'' (ex_push_refused ex_world) = (Inr (), ex_copied)"
  "git_add_all ''/w/temp_repo'' ex_copied = (Inr (), ex_staged)"
  "has_changes ex_staged ''/w/temp_repo''"
  "index_commit ''msg'' ''/w/temp_repo'' (print_line ''Files added to staging area'' ex_staged) =
     (Inr (), ex_committed)"
  "fst (push_origin ''/w/temp_repo'' (print_line ''Changes committed: msg'' ex_committed)) =
     Inl (GitCommandError ''authentication failed'')"
  "fs ex_committed ''/w/temp_repo'' \<noteq> None"
  "fs (snd (clone_and_push_folder_fixed ''url'' ''/w/src'' ''/w/temp_repo'' ''msg'' ''main''
         (ex_push_refused ex_world))) ''/w/temp_repo'' = None"
proof -
  have "fst (prepare_clone ''url'' ''/w/src'' ''/w/temp_repo'' ''main'' (ex_push_refused ex_world)) = Inr ()"
    by code_simp
  then show "prepare_clone ''url'' ''/w/src'' ''/w/temp_repo'' ''main'' (ex_push_refused ex_world) = (Inr (), ex_copied)"
    by (simp add: ex_copied_def prod_eq_iff)
  have "fst (git_add_all ''/w/temp_repo'' ex_copied) = Inr ()"
    by code_simp
  then show "git_add_all ''/w/temp_repo'' ex_copied = (Inr (), ex_staged)"
    by (simp add: ex_staged_def prod_eq_iff)
  show "has_changes ex_staged ''/w/temp_repo''"
    by code_simp
  have "fst (index_commit ''msg'' ''/w/temp_repo'' (print_line ''Files added to staging area'' ex_staged)) = Inr ()"
    by code_simp
  then show "index_commit ''msg'' ''/w/temp_repo'' (print_line ''Files added to staging area'' ex_staged) =
     (Inr (), ex_committed)"
    by (simp add: ex_committed_def prod_eq_iff)
  show "fst (push_origin ''/w/temp_repo'' (print_line ''Changes committed: msg'' ex_committed)) =
     Inl (GitCommandError ''authentication failed'')"
    by code_simp
  show "fs ex_committed ''/w/temp_repo'' \<noteq> None"
    by code_simp
  show "fs (snd (clone_and_push_folder_fixed ''url'' ''/w/src'' ''/w/temp_repo'' ''msg'' ''main''
         (ex_push_refused ex_world))) ''/w/temp_repo'' = None"
    by code_simp
qed

lemma ex_existing_steps:
  "stage_existing ''/w/src'' ''/w/repo'' ''main'' (ex_push_refused ex_existing) = (Inr (), ex_staged2)"
  "has_changes ex_staged2 ''/w/repo''"
  "index_commit ''msg'' ''/w/repo'' ex_staged2 = (Inr (), ex_committed2)"
  "fst (push_origin ''/w/repo'' (print_line ''Committed: msg'' ex_committed2)) =
     Inl (GitCommandError ''authentication failed'')"
proof -
  have "fst (stage_existing ''/w/src'' ''/w/repo'' ''main'' (ex_push_refused ex_existing)) = Inr ()"
    by code_simp
  then show "stage_existing ''/w/src'' ''/w/repo'' ''main'' (ex_push_refused ex_existing) = (Inr (), ex_staged2)"
    by (simp add: ex_staged2_def prod_eq_iff)
  show "has_changes ex_staged2 ''/w/repo''"
    by code_simp
  have "fst (index_commit ''msg'' ''/w/repo'' ex_staged2) = Inr ()"
    by code_simp
  then show "index_commit ''msg'' ''/w/repo'' ex_staged2 = (Inr (), ex_committed2)"
    by (simp add: ex_committed2_def prod_eq_iff)
  show "fst (push_origin ''/w/repo'' (print_line ''Committed: msg'' ex_committed2)) =
     Inl (GitCommandError ''authentication failed'')"
    by code_simp
qed

lemma ex_abspath:
  "abspath (ex_push_refused ex_world) ''/w/src'' = ''/w/src''"
  "abspath (ex_push_refused ex_world) ''/w/temp_repo'' = ''/w/temp_repo''"
  "abspath (ex_push_refused ex_existing) ''/w/src'' = ''/w/src''"
  "abspath (ex_push_refused ex_existing) ''/w/repo'' = ''/w/repo''"
  by (simp_all add: abspath_def)

theorem push_failure_is_reported_witness:
  "clone_and_push_folder_fixed ''url'' ''/w/src'' ''/w/temp_repo'' ''msg'' ''main''
       (ex_push_refused ex_world) =
     cleanup ''/w/temp_repo''
       (print_line ''You may need to configure authentication or check repository permissions''
          (print_line ''Push failed: authentication failed''
             (print_line ''Changes committed: msg'' ex_committed)))
   \<and> repos (snd (clone_and_push_folder_fixed ''url'' ''/w/src'' ''/w/temp_repo'' ''msg'' ''main''
         (ex_push_refused ex_world))) ''/w/temp_repo'' = None
   \<and> push_to_existing_repo ''/w/src'' ''/w/repo'' ''msg'' ''main'' (ex_push_refused ex_existing) =
       (Inr (), print_line ''Error: authentication failed'' (print_line ''Committed: msg'' ex_committed2))"
proof -
  let ?W = "ex_push_refused ex_world"
  let ?V = "ex_push_refused ex_existing"
  let ?w3 = "snd (push_origin ''/w/temp_repo'' (print_line ''Changes committed: msg'' ex_committed))"
  let ?v3 = "snd (push_origin ''/w/repo'' (print_line ''Committed: msg'' ex_committed2))"
  let ?e = "GitCommandError ''authentication failed''"
  note T = push_failure_is_reported [where p = "''/w/temp_repo''"
        and w = ?W and e = ?e and w' = ?w3
        and url = "''url''" and l = "''/w/src''" and c = "''/w/temp_repo''" and b = "''main''"
        and ?w0.0 = ex_copied and ?w1.0 = ex_staged and msg = "''msg''"
        and ?w2.0 = ex_committed and ?w3.0 = ?w3
        and v = ?V and ?l2.0 = "''/w/src''" and rp = "''/w/repo''"
        and ?b2.0 = "''main''" and ?v0.0 = ex_staged2 and ?m2.0 = "''msg''"
        and ?v2.0 = ex_committed2 and ?e2.0 = ?e and ?v3.0 = ?v3]
  have c: "prepare_clone ''url'' (abspath ?W ''/w/src'') (abspath ?W ''/w/temp_repo'') ''main'' ?W
             = (Inr (), ex_copied)
      \<and> git_add_all (abspath ?W ''/w/temp_repo'') ex_copied = (Inr (), ex_staged)
      \<and> has_changes ex_staged (abspath ?W ''/w/temp_repo'')
      \<and> index_commit ''msg'' (abspath ?W ''/w/temp_repo'')
           (print_line ''Files added to staging area'' ex_staged) = (Inr (), ex_committed)
      \<and> push_origin (abspath ?W ''/w/temp_repo'')
           (print_line (''Changes committed: '' @ ''msg'') ex_committed) = (Inl ?e, ?w3)"
    using ex_clone_steps(1-5) by (simp add: ex_abspath prod_eq_iff)
  have d: "stage_existing (abspath ?V ''/w/src'') (abspath ?V ''/w/repo'') ''main'' ?V
             = (Inr (), ex_staged2)
      \<and> has_changes ex_staged2 (abspath ?V ''/w/repo'')
      \<and> index_commit ''msg'' (abspath ?V ''/w/repo'') ex_staged2 = (Inr (), ex_committed2)
      \<and> push_origin (abspath ?V ''/w/repo'')
           (print_line (''Committed: '' @ ''msg'') ex_committed2) = (Inl ?e, ?v3)"
    using ex_existing_steps by (simp add: ex_abspath prod_eq_iff)
  have g: "fs ex_committed (abspath ?W ''/w/temp_repo'') \<noteq> None
      \<and> fs (snd (clone_and_push_folder_fixed ''url'' ''/w/src'' ''/w/temp_repo'' ''msg'' ''main'' ?W))
           (abspath ?W ''/w/temp_repo'') = None"
    using ex_clone_steps(6,7) by (simp add: ex_abspath)
  from T c have R1: "clone_and_push_folder_fixed ''url'' ''/w/src'' ''/w/temp_repo'' ''msg'' ''main'' ?W =
          cleanup (abspath ?W ''/w/temp_repo'')
            (if is_GitCommandError ?e
             then print_line ''You may need to configure authentication or check repository permissions''
                    (print_line (''Push failed: '' @ str_exc ?e)
                       (print_line (''Changes committed: '' @ ''msg'') ex_committed))
             else print_line (''Error: '' @ str_exc ?e)
                    (print_line (''Changes committed: '' @ ''msg'') ex_committed))"
    by blast
  from T c g have R2: "repos (snd (clone_and_push_folder_fixed ''url'' ''/w/src'' ''/w/temp_repo''
          ''msg'' ''main'' ?W)) (abspath ?W ''/w/temp_repo'') = None"
    by blast
  from T d have R3: "push_to_existing_repo ''/w/src'' ''/w/repo'' ''msg'' ''main'' ?V =
          (Inr (), print_line (''Error: '' @ str_exc ?e)
                     (print_line (''Committed: '' @ ''msg'') ex_committed2))"
    by blast
  from R1 have G1: "clone_and_push_folder_fixed ''url'' ''/w/src'' ''/w/temp_repo'' ''msg'' ''main'' ?W =
     cleanup ''/w/temp_repo''
       (print_line ''You may need to configure authentication or check repository permissions''
          (print_line ''Push failed: authentication failed''
             (print_line ''Changes committed: msg'' ex_committed)))"
    by (simp add: ex_abspath)
  from R2 have G2: "repos (snd (clone_and_push_folder_fixed ''url'' ''/w/src'' ''/w/temp_repo''
          ''msg'' ''main'' ?W)) ''/w/temp_repo'' = None"
    by (simp add: ex_abspath)
  from R3 have G3: "push_to_existing_repo ''/w/src'' ''/w/repo'' ''msg'' ''main'' ?V =
       (Inr (), print_line ''Error: authentication failed'' (print_line ''Committed: msg'' ex_committed2))"
    by simp
  from G1 G2 G3 show ?thesis by blast
qed

text \<open>
  The claim as stated fails for the clone: the push is refused after the commit was made,
  the operation returns, and no checkout holds the commit any more, while the remote never
  received it.
\<close>

theorem push_failure_counterexample:
  "events (snd (clone_and_push_folder_fixed ''url'' ''src'' ''temp_repo'' ''msg'' ''main''
       (ex_push_refused ex_world))) = [EvCommit ''/w/temp_repo'' ''msg'']
   \<and> fs (snd (clone_and_push_folder_fixed ''url'' ''src'' ''temp_repo'' ''msg'' ''main''
       (ex_push_refused ex_world))) ''/w/temp_repo'' = None
   \<and> repos (snd (clone_and_push_folder_fixed ''url'' ''src'' ''temp_repo'' ''msg'' ''main''
       (ex_push_refused ex_world))) ''/w/temp_repo'' = None
   \<and> remotes (snd (clone_and_push_folder_fixed ''url'' ''src'' ''temp_repo'' ''msg'' ''main''
       (ex_push_refused ex_world))) ''url'' = Some ex_remote"
  by code_simp

section \<open>Choosing the branch\<close>

lemma git_checkout_ok:
  "git_checkout b p w = (Inr (), w1) \<Longrightarrow> \<exists>r. repos w1 p = Some r \<and> r_head r = b"
  by (auto simp: git_checkout_def switch_to_def set_worktree_def split: option.splits if_splits)

lemma git_checkout_b_ok:
  "git_checkout_b b p w = (Inr (), w1) \<Longrightarrow>
     \<exists>r0 r h. repos w p = Some r0 \<and> repos w1 p = Some r \<and> r_head r = b
        \<and> map_of (r_remote_refs r0) b = Some h \<and> r_branches r = r_branches r0 @ [(b, h)]"
  by (auto simp: git_checkout_b_def switch_to_def set_worktree_def split: option.splits if_splits)

lemma git_checkout_fails: "git_checkout b p w = (Inl e, w1) \<Longrightarrow> w1 = w"
  by (auto simp: git_checkout_def switch_to_def split: option.splits if_splits)

lemma git_checkout_b_fails: "git_checkout_b b p w = (Inl e, w1) \<Longrightarrow> w1 = w"
  by (auto simp: git_checkout_b_def switch_to_def split: option.splits if_splits)

lemma switch_clone_local:
  assumes "b \<in> set (branch_names w p)" and "git_checkout b p w = (Inr (), w1)"
  shows "switch_branch_clone b p w = (Inr (), print_line (''Switched to existing branch: '' @ b) w1)"
    and "\<exists>r. repos w1 p = Some r \<and> r_head r = b"
  using assms git_checkout_ok [OF assms(2)]
  by (simp_all add: switch_branch_clone_def try_except_def seq_def pr_def)

lemma switch_clone_remote:
  assumes "b \<notin> set (branch_names w p)" and "(''origin/'' @ b) \<in> set (ref_names w p)"
    and "git_checkout_b b p w = (Inr (), w1)"
  shows "switch_branch_clone b p w =
           (Inr (), print_line (''Created and switched to branch: '' @ b) w1)"
    and "\<exists>r0 r h. repos w p = Some r0 \<and> repos w1 p = Some r \<and> r_head r = b
        \<and> map_of (r_remote_refs r0) b = Some h \<and> r_branches r = r_branches r0 @ [(b, h)]"
  using assms git_checkout_b_ok [OF assms(3)]
  by (simp_all add: switch_branch_clone_def try_except_def seq_def pr_def)

lemma switch_clone_neither:
  assumes "b \<notin> set (branch_names w p)" and "(''origin/'' @ b) \<notin> set (ref_names w p)"
  shows "switch_branch_clone b p w =
           (Inr (), print_line (''Using current branch (could not find '' @ b @ '')'') w)"
  using assms by (simp add: switch_branch_clone_def try_except_def pr_def)

lemma switch_clone_total: "fst (switch_branch_clone b p w) = Inr ()"
  unfolding switch_branch_clone_def by (rule try_except_total) (simp add: pr_def)

lemma switch_clone_warning:
  assumes "fst (git_checkout b p w) = Inl e" and "fst (git_checkout_b b p w) = Inl e"
    and "b \<in> set (branch_names w p) \<or> (''origin/'' @ b) \<in> set (ref_names w p)"
  shows "switch_branch_clone b p w =
           (Inr (), print_line (''Branch switching warning: '' @ str_exc e) w)"
proof -
  have a: "git_checkout b p w = (Inl e, w)"
    using assms(1) git_checkout_fails [of b p w e "snd (git_checkout b p w)"]
    by (simp add: prod_eq_iff)
  have b: "git_checkout_b b p w = (Inl e, w)"
    using assms(2) git_checkout_b_fails [of b p w e "snd (git_checkout_b b p w)"]
    by (simp add: prod_eq_iff)
  from a b assms(3) show ?thesis
    by (auto simp: switch_branch_clone_def try_except_def seq_def pr_def)
qed

lemma switch_existing_local:
  assumes "b \<in> set (branch_names w p)" and "git_checkout b p w = (Inr (), w1)"
  shows "switch_branch_existing b p w = (Inr (), print_line (''Switched to branch: '' @ b) w1)"
  using assms by (simp add: switch_branch_existing_def seq_def pr_def)

lemma switch_existing_other:
  "b \<notin> set (branch_names w p) \<Longrightarrow> switch_branch_existing b p w = (Inr (), w)"
  by (simp add: switch_branch_existing_def skip_def)

lemma switch_existing_fatal:
  assumes "b \<in> set (branch_names w p)" and "git_checkout b p w = (Inl e, w1)"
  shows "switch_branch_existing b p w = (Inl e, w)"
  using assms git_checkout_fails [OF assms(2)]
  by (simp add: switch_branch_existing_def seq_def)

text \<open>
  The branch selection of \<^verbatim>\<open>clone_and_push_folder_fixed\<close> is the three-way
  fallback, and never fatal.
\<close>

lemma switch_branch_clone_three_way:
  "fst (switch_branch_clone b p w) = Inr ()
   \<and> (b \<in> set (branch_names w p) \<and> git_checkout b p w = (Inr (), w1) \<longrightarrow>
        switch_branch_clone b p w =
          (Inr (), print_line (''Switched to existing branch: '' @ b) w1)
        \<and> (\<exists>r. repos w1 p = Some r \<and> r_head r = b))
   \<and> (b \<notin> set (branch_names w p) \<and> (''origin/'' @ b) \<in> set (ref_names w p)
        \<and> git_checkout_b b p w = (Inr (), w2) \<longrightarrow>
        switch_branch_clone b p w =
          (Inr (), print_line (''Created and switched to branch: '' @ b) w2)
        \<and> (\<exists>r0 r h. repos w p = Some r0 \<and> repos w2 p = Some r \<and> r_head r = b
              \<and> map_of (r_remote_refs r0) b = Some h \<and> r_branches r = r_branches r0 @ [(b, h)]))
   \<and> (b \<notin> set (branch_names w p) \<and> (''origin/'' @ b) \<notin> set (ref_names w p) \<longrightarrow>
        switch_branch_clone b p w =
          (Inr (), print_line (''Using current branch (could not find '' @ b @ '')'') w))"
  using switch_clone_total [of b p w] switch_clone_local [of b w p w1]
    switch_clone_remote [of b w p w2] switch_clone_neither [of b w p]
  by blast

text \<open>
  C5 at the input where \<^verbatim>\<open>push_to_existing_repo\<close> departs from it. The caller's
  checkout is on main and has a remote-tracking branch origin/dev but no local branch
  dev. Asked for dev, the branch step of \<^verbatim>\<open>push_to_existing_repo\<close> does nothing at
  all, and the operation commits on main and pushes main; the branch step of
  \<^verbatim>\<open>clone_and_push_folder_fixed\<close> on the same checkout creates dev from origin/dev
  and switches to it.
\<close>

theorem existing_repo_ignores_remote_branch:
  "''dev'' \<notin> set (branch_names ex_existing ''/w/repo'')
   \<and> ''origin/dev'' \<in> set (ref_names ex_existing ''/w/repo'')
   \<and> switch_branch_existing ''dev'' ''/w/repo'' ex_existing = (Inr (), ex_existing)
   \<and> events (snd (push_to_existing_repo ''src'' ''repo'' ''msg'' ''dev'' ex_existing)) =
       [EvCommit ''/w/repo'' ''msg'', EvPush ''url'' ''main'']
   \<and> map_option r_head (repos (snd (push_to_existing_repo ''src'' ''repo'' ''msg'' ''dev'' ex_existing))
        ''/w/repo'') = Some ''main''
   \<and> map_option r_head (repos (snd (switch_branch_clone ''dev'' ''/w/repo'' ex_existing))
        ''/w/repo'') = Some ''dev''
   \<and> out (snd (switch_branch_clone ''dev'' ''/w/repo'' ex_existing)) =
       [''Created and switched to branch: dev'']"
proof -
  have a: "''dev'' \<notin> set (branch_names ex_existing ''/w/repo'')"
    by code_simp
  then have "switch_branch_existing ''dev'' ''/w/repo'' ex_existing = (Inr (), ex_existing)"
    by (rule switch_existing_other)
  moreover have "''origin/dev'' \<in> set (ref_names ex_existing ''/w/repo'')"
    by code_simp
  moreover have "events (snd (push_to_existing_repo ''src'' ''repo'' ''msg'' ''dev'' ex_existing)) =
       [EvCommit ''/w/repo'' ''msg'', EvPush ''url'' ''main'']"
    by code_simp
  moreover have "map_option r_head (repos (snd (push_to_existing_repo ''src'' ''repo'' ''msg'' ''dev'' ex_existing))
        ''/w/repo'') = Some ''main''"
    by code_simp
  moreover have "map_option r_head (repos (snd (switch_branch_clone ''dev'' ''/w/repo'' ex_existing))
        ''/w/repo'') = Some ''dev''"
    by code_simp
  moreover have "out (snd (switch_branch_clone ''dev'' ''/w/repo'' ex_existing)) =
       [''Created and switched to branch: dev'']"
    by code_simp
  ultimately show ?thesis using a by blast
qed

section \<open>Copying the source folder into the checkout\<close>

lemma copy_entries_frame:
  "copy_entries ok dst ses des = (errs, des') \<Longrightarrow> k \<notin> fst ` set ses \<Longrightarrow>
     map_of des' k = map_of des k"
proof (induction ses arbitrary: des errs des')
  case Nil
  then show ?case by simp
next
  case (Cons x rest)
  obtain k0 n where x: "x = (k0, n)" by (cases x)
  from Cons.prems(2) x have ne: "k \<noteq> k0" and nin: "k \<notin> fst ` set rest" by auto
  show ?case
  proof (cases n)
    case (File a c)
    with Cons.prems(1) x show ?thesis
      using Cons.IH [OF _ nin] ne
      by (auto simp: update_conv' split: sum.splits prod.splits)
  next
    case (Dir a ses')
    with Cons.prems(1) x show ?thesis
      using Cons.IH [OF _ nin] ne
      by (auto simp: update_conv' simp del: copytree.simps split: prod.splits option.splits)
  qed
qed

lemma copytree_frame:
  assumes "copytree True dst a ses (Some (Dir b des)) = (r, s)"
  shows "\<exists>des'. s = Some (Dir a des') \<and> (\<forall>k. k \<notin> fst ` set ses \<longrightarrow> map_of des' k = map_of des k)"
proof -
  obtain errs des' where c: "copy_entries True dst ses des = (errs, des')"
    by (cases "copy_entries True dst ses des")
  with assms have "s = Some (Dir a des')" by auto
  with copy_entries_frame [OF c] show ?thesis by blast
qed

lemma merge_item_frame:
  "merge_item root x des = (r, des') \<Longrightarrow> k \<noteq> fst x \<Longrightarrow> map_of des' k = map_of des k"
  by (cases x, case_tac b)
     (auto simp: update_conv' simp del: copytree.simps split: sum.splits prod.splits option.splits)

lemma merge_items_frame:
  "merge_items root items des = (r, des') \<Longrightarrow> k \<notin> fst ` set items \<Longrightarrow>
     map_of des' k = map_of des k"
proof (induction items arbitrary: des)
  case Nil
  then show ?case by simp
next
  case (Cons x rest)
  obtain r1 d1 where m: "merge_item root x des = (r1, d1)" by (cases "merge_item root x des")
  from Cons.prems(2) have ne: "k \<noteq> fst x" and nin: "k \<notin> fst ` set rest" by auto
  note f = merge_item_frame [OF m ne]
  show ?case
  proof (cases r1)
    case None
    with Cons.prems(1) m have "merge_items root rest d1 = (r, des')" by simp
    from Cons.IH [OF this nin] f show ?thesis by simp
  next
    case (Some e)
    with Cons.prems(1) m f show ?thesis by simp
  qed
qed

lemma set_worktree_fields [simp]:
  "repos (set_worktree p es w) = repos w"
  "remotes (set_worktree p es w) = remotes w" "events (set_worktree p es w) = events w"
  "git_fault (set_worktree p es w) = git_fault w" "os_fault (set_worktree p es w) = os_fault w"
  "cwd (set_worktree p es w) = cwd w" "out (set_worktree p es w) = out w"
  by (simp_all add: set_worktree_def)

lemma set_worktree_fs:
  "fs w p = Some (Dir ro des) \<Longrightarrow> fs (set_worktree p es w) = (fs w)(p \<mapsto> Dir ro es)"
  by (simp add: set_worktree_def)

lemma copy2_at_refines:
  assumes "fs w root = Some (Dir ro des)" and "merge_item root (k, File a c) des = (r, d1)"
  shows "fst (copy2_at root k a c w) = (case r of None \<Rightarrow> Inr () | Some e \<Rightarrow> Inl e)
       \<and> fs (snd (copy2_at root k a c w)) = (fs w)(root \<mapsto> Dir ro d1)
       \<and> same_git w (snd (copy2_at root k a c w))
       \<and> out (snd (copy2_at root k a c w)) = out w"
  using assms
  by (auto simp: copy2_at_def same_git_def set_worktree_fs map_upd_triv split: sum.splits)

lemma copytree_at_refines:
  assumes "fs w root = Some (Dir ro des)" and "merge_item root (k, Dir a ses) des = (r, d1)"
  shows "fst (copytree_at (map_of des k \<noteq> None) root k a ses w) = (case r of None \<Rightarrow> Inr () | Some e \<Rightarrow> Inl e)
       \<and> fs (snd (copytree_at (map_of des k \<noteq> None) root k a ses w)) = (fs w)(root \<mapsto> Dir ro d1)
       \<and> same_git w (snd (copytree_at (map_of des k \<noteq> None) root k a ses w))
       \<and> out (snd (copytree_at (map_of des k \<noteq> None) root k a ses w)) = out w"
  using assms
  by (auto simp: copytree_at_def same_git_def set_worktree_fs map_upd_triv simp del: copytree.simps
      split: prod.splits option.splits)

lemma same_git_print: "same_git w w' \<Longrightarrow> same_git (print_line s w) w' \<and> same_git w (print_line s w')"
  by (simp add: same_git_def)

lemma same_git_refl [simp]: "same_git w w"
  by (simp add: same_git_def)

lemma same_git_trans: "same_git a b \<Longrightarrow> same_git b c \<Longrightarrow> same_git a c"
  by (simp add: same_git_def)

lemma target_exists_eq: "fs w root = Some (Dir ro des) \<Longrightarrow> target_exists w root k = (map_of des k \<noteq> None)"
  by (simp add: target_exists_def worktree_def)

lemma copy_item_clone_refines:
  assumes "fs w root = Some (Dir ro des)" and "merge_item root x des = (r, d1)"
  shows "fst (copy_item_clone root x w) = (case r of None \<Rightarrow> Inr () | Some e \<Rightarrow> Inl e)
       \<and> fs (snd (copy_item_clone root x w)) = (fs w)(root \<mapsto> Dir ro d1)
       \<and> same_git w (snd (copy_item_clone root x w))"
proof -
  obtain k n where x: "x = (k, n)" by (cases x)
  show ?thesis
  proof (cases n)
    case (File a c)
    let ?w1 = "print_line (''Copying file: '' @ k) w"
    have "fs ?w1 root = Some (Dir ro des)" using assms(1) by simp
    from copy2_at_refines [OF this] assms(2) x File show ?thesis
      by (simp add: seq_def pr_def same_git_def)
  next
    case (Dir a ses)
    let ?w1 = "print_line (''Merging directory: '' @ k) w"
    let ?w2 = "print_line (''Copying directory: '' @ k) w"
    have f: "fs ?w1 root = Some (Dir ro des)" "fs ?w2 root = Some (Dir ro des)"
      using assms(1) by simp_all
    have m: "merge_item root (k, Dir a ses) des = (r, d1)" using assms(2) x Dir by simp
    have t: "target_exists w root k = (map_of des k \<noteq> None)"
      by (rule target_exists_eq [OF assms(1)])
    show ?thesis
    proof (cases "map_of des k = None")
      case True
      with t x Dir have "copy_item_clone root x w = copytree_at (map_of des k \<noteq> None) root k a ses ?w2"
        by (simp add: seq_def pr_def)
      with copytree_at_refines [OF f(2) m] show ?thesis by (simp add: same_git_def)
    next
      case False
      with t x Dir have "copy_item_clone root x w = copytree_at (map_of des k \<noteq> None) root k a ses ?w1"
        by (simp add: seq_def pr_def)
      with copytree_at_refines [OF f(1) m] show ?thesis by (simp add: same_git_def)
    qed
  qed
qed

lemma copy_item_existing_refines:
  assumes "fs w root = Some (Dir ro des)" and "merge_item root x des = (r, d1)"
  shows "fst (copy_item_existing root x w) = (case r of None \<Rightarrow> Inr () | Some e \<Rightarrow> Inl e)
       \<and> fs (snd (copy_item_existing root x w)) = (fs w)(root \<mapsto> Dir ro d1)
       \<and> same_git w (snd (copy_item_existing root x w))"
proof -
  obtain k n where x: "x = (k, n)" by (cases x)
  let ?w1 = "print_line (''Processing: '' @ k) w"
  have f: "fs ?w1 root = Some (Dir ro des)" using assms(1) by simp
  show ?thesis
  proof (cases n)
    case (File a c)
    from copy2_at_refines [OF f] assms(2) x File show ?thesis
      by (simp add: seq_def pr_def same_git_def)
  next
    case (Dir a ses)
    have m: "merge_item root (k, Dir a ses) des = (r, d1)" using assms(2) x Dir by simp
    have t: "target_exists ?w1 root k = (map_of des k \<noteq> None)"
      by (rule target_exists_eq [OF f])
    have "copy_item_existing root x w = copytree_at (map_of des k \<noteq> None) root k a ses ?w1"
      using t x Dir by (cases "map_of des k = None") (simp_all add: seq_def pr_def)
    with copytree_at_refines [OF f m] show ?thesis by (simp add: same_git_def)
  qed
qed

lemma copy_items_clone_refines:
  assumes "fs w root = Some (Dir ro des)" and "merge_items root items des = (r, d1)"
  shows "fst (copy_items_clone root items w) = (case r of None \<Rightarrow> Inr () | Some e \<Rightarrow> Inl e)
       \<and> fs (snd (copy_items_clone root items w)) = (fs w)(root \<mapsto> Dir ro d1)
       \<and> same_git w (snd (copy_items_clone root items w))"
  using assms
proof (induction items arbitrary: w des)
  case Nil
  then show ?case by (simp add: skip_def map_upd_triv)
next
  case (Cons x rest)
  obtain r0 d0 where m: "merge_item root x des = (r0, d0)" by (cases "merge_item root x des")
  note s = copy_item_clone_refines [OF Cons.prems(1) m]
  obtain q w1 where c: "copy_item_clone root x w = (q, w1)" by (cases "copy_item_clone root x w")
  show ?case
  proof (cases r0)
    case (Some e)
    with Cons.prems(2) m have "r = Some e" "d1 = d0" by simp_all
    with s c Some show ?thesis by (simp add: seq_def)
  next
    case None
    with Cons.prems(2) m have rest: "merge_items root rest d0 = (r, d1)" by simp
    from s c None have q: "q = Inr ()" and f1: "fs w1 root = Some (Dir ro d0)"
      and f2: "fs w1 = (fs w)(root \<mapsto> Dir ro d0)" and g: "same_git w w1"
      by simp_all
    from Cons.IH [OF f1 rest] c q f2 g show ?thesis
      by (auto simp: seq_def same_git_def)
  qed
qed

lemma copy_items_existing_refines:
  assumes "fs w root = Some (Dir ro des)" and "merge_items root items des = (r, d1)"
  shows "fst (copy_items_existing root items w) = (case r of None \<Rightarrow> Inr () | Some e \<Rightarrow> Inl e)
       \<and> fs (snd (copy_items_existing root items w)) = (fs w)(root \<mapsto> Dir ro d1)
       \<and> same_git w (snd (copy_items_existing root items w))"
  using assms
proof (induction items arbitrary: w des)
  case Nil
  then show ?case by (simp add: skip_def map_upd_triv)
next
  case (Cons x rest)
  obtain r0 d0 where m: "merge_item root x des = (r0, d0)" by (cases "merge_item root x des")
  note s = copy_item_existing_refines [OF Cons.prems(1) m]
  obtain q w1 where c: "copy_item_existing root x w = (q, w1)" by (cases "copy_item_existing root x w")
  show ?case
  proof (cases r0)
    case (Some e)
    with Cons.prems(2) m have "r = Some e" "d1 = d0" by simp_all
    with s c Some show ?thesis by (simp add: seq_def)
  next
    case None
    with Cons.prems(2) m have rest: "merge_items root rest d0 = (r, d1)" by simp
    from s c None have q: "q = Inr ()" and f1: "fs w1 root = Some (Dir ro d0)"
      and f2: "fs w1 = (fs w)(root \<mapsto> Dir ro d0)" and g: "same_git w w1"
      by simp_all
    from Cons.IH [OF f1 rest] c q f2 g show ?thesis
      by (auto simp: seq_def same_git_def)
  qed
qed

lemma lookup_Nil [simp]: "lookup [] path = None"
proof (cases path)
  case Nil
  then show ?thesis by simp
next
  case (Cons k ks)
  then show ?thesis by (cases ks) simp_all
qed

lemma lookup_cong_head:
  "map_of d1 k = map_of d2 k \<Longrightarrow> lookup d1 (k # ks) = lookup d2 (k # ks)"
  by (cases ks) simp_all

lemma copytree_some: "copytree ok dst a ses cur = (r, s) \<Longrightarrow> s \<noteq> None"
  by (auto split: option.splits node.splits if_splits prod.splits)

lemma copy_dest_only:
  "wf_tree ses \<Longrightarrow> dest_only ses path \<Longrightarrow> copytree ok dst a ses cur = (r, s) \<Longrightarrow>
     (case s of Some (Dir b es') \<Rightarrow> lookup es' path | _ \<Rightarrow> None) =
     (case cur of Some (Dir b es) \<Rightarrow> lookup es path | _ \<Rightarrow> None)"
  "wf_tree ses \<Longrightarrow> dest_only ses path \<Longrightarrow> copy_entries ok dst ses des = (errs, des') \<Longrightarrow>
     lookup des' path = lookup des path"
proof (induction ok dst a ses cur and ok dst ses des arbitrary: r s path and errs des' path
        rule: copytree_copy_entries.induct)
  case (1 ok dst a ses cur)
  show ?case
  proof (cases cur)
    case None
    obtain errs des' where c: "copy_entries ok dst ses [] = (errs, des')"
      by (cases "copy_entries ok dst ses []")
    from "1.IH"(1) [OF None "1.prems"(1,2) c] have "lookup des' path = None" by simp
    moreover from "1.prems"(3) None c have "s = Some (Dir a des')" by simp
    ultimately show ?thesis using None by simp
  next
    case (Some n)
    show ?thesis
    proof (cases n)
      case (File ro c)
      with Some "1.prems"(3) show ?thesis by simp
    next
      case (Dir ro des)
      show ?thesis
      proof (cases ok)
        case False
        with Some Dir "1.prems"(3) show ?thesis by simp
      next
        case True
        obtain errs des' where c: "copy_entries ok dst ses des = (errs, des')"
          by (cases "copy_entries ok dst ses des")
        from True have nok: "\<not> \<not> ok" by simp
        from "1.IH"(2) [OF Some Dir nok "1.prems"(1,2) c]
        have "lookup des' path = lookup des path" .
        moreover from "1.prems"(3) Some Dir True c have "s = Some (Dir a des')" by simp
        ultimately show ?thesis using Some Dir by simp
      qed
    qed
  qed
next
  case (2 ok dst des)
  then show ?case by simp
next
  case (3 ok dst k a c rest des)
  from "3.prems"(2) obtain k0 ks where path: "path = k0 # ks" by (cases path) simp_all
  from "3.prems"(1) have wf: "wf_tree rest" and nin: "k \<notin> fst ` set rest" by simp_all
  from "3.prems"(2) path have ne: "k0 \<noteq> k" by (auto split: if_splits)
  with "3.prems"(2) path have d: "dest_only rest path" by simp
  show ?case
  proof (cases "copy2 (join dst k) k a c (map_of des k)")
    case (Inl e)
    obtain errs2 des2 where c: "copy_entries ok dst rest des = (errs2, des2)"
      by (cases "copy_entries ok dst rest des")
    from "3.IH"(1) [OF Inl wf d c] "3.prems"(3) Inl c show ?thesis by simp
  next
    case (Inr m)
    from "3.prems"(3) Inr have c: "copy_entries ok dst rest (AList.update k m des) = (errs, des')"
      by simp
    from "3.IH"(2) [OF Inr wf d c]
    have "lookup des' path = lookup (AList.update k m des) path" .
    also have "\<dots> = lookup des path"
      unfolding path using ne by (intro lookup_cong_head) (simp add: update_conv')
    finally show ?thesis .
  qed
next
  case (4 ok dst k a ses rest des)
  from "4.prems"(2) obtain k0 ks where path: "path = k0 # ks" by (cases path) simp_all
  from "4.prems"(1) have wf: "wf_tree rest" and nin: "k \<notin> fst ` set rest" and wfs: "wf_tree ses"
    by simp_all
  obtain r s where t: "copytree ok (join dst k) a ses (map_of des k) = (r, s)"
    by (cases "copytree ok (join dst k) a ses (map_of des k)")
  from copytree_some [OF t] obtain m where s: "s = Some m" by auto
  let ?des1 = "AList.update k m des"
  obtain errs2 des2 where c: "copy_entries ok dst rest ?des1 = (errs2, des2)"
    by (cases "copy_entries ok dst rest ?des1")
  from "4.prems"(3) t s c have des': "des' = des2"
    by (simp del: copytree.simps)
  show ?case
  proof (cases "k0 = k")
    case False
    with "4.prems"(2) path have d: "dest_only rest path" by simp
    from "4.IH"(2) [OF t [symmetric] wf d, of errs2 des2] c s
    have "lookup des2 path = lookup ?des1 path" by (simp del: copytree.simps)
    also have "\<dots> = lookup des path"
      unfolding path using False by (intro lookup_cong_head) (simp add: update_conv')
    finally show ?thesis using des' by simp
  next
    case True
    with "4.prems"(2) path have d: "dest_only ses ks" by simp
    then obtain k' ks' where ks: "ks = k' # ks'" by (cases ks) simp_all
    from "4.IH"(1) [OF wfs d t] s
    have e: "(case m of Dir b es' \<Rightarrow> lookup es' ks | _ \<Rightarrow> None) =
          (case map_of des k of Some (Dir b es) \<Rightarrow> lookup es ks | _ \<Rightarrow> None)"
      by simp
    have "map_of des2 k = map_of ?des1 k"
      using copy_entries_frame [OF c nin] .
    then have "lookup des2 path = lookup ?des1 path"
      unfolding path True by (rule lookup_cong_head)
    also have "\<dots> = (case m of Dir b es' \<Rightarrow> lookup es' ks | _ \<Rightarrow> None)"
      unfolding path True ks by (simp add: update_conv' split: node.splits)
    also have "\<dots> = lookup des path"
      unfolding e unfolding path True ks by (simp split: option.splits node.splits)
    finally show ?thesis using des' by simp
  qed
qed

lemma merge_items_dest_only:
  "wf_tree items \<Longrightarrow> dest_only items path \<Longrightarrow> merge_items root items des = (r, des') \<Longrightarrow>
     lookup des' path = lookup des path"
proof (induction items arbitrary: des)
  case Nil
  then show ?case by simp
next
  case (Cons x rest)
  obtain k n where x: "x = (k, n)" by (cases x)
  from Cons.prems(2) obtain k0 ks where path: "path = k0 # ks" by (cases path) simp_all
  from Cons.prems(1) x have wf: "wf_tree rest" and nin: "k \<notin> fst ` set rest" and wfn: "wf_node n"
    by simp_all
  obtain r1 d1 where m: "merge_item root x des = (r1, d1)" by (cases "merge_item root x des")
  have step: "lookup d1 path = lookup des path"
  proof (cases "k0 = k")
    case False
    then have "map_of d1 k0 = map_of des k0"
      using merge_item_frame [OF m, of k0] x by simp
    then show ?thesis unfolding path by (rule lookup_cong_head)
  next
    case True
    show ?thesis
    proof (cases n)
      case (File a c)
      with Cons.prems(2) path True x show ?thesis by simp
    next
      case (Dir a ses)
      with Cons.prems(2) path True x have d: "dest_only ses ks" by simp
      then obtain k' ks' where ks: "ks = k' # ks'" by (cases ks) simp_all
      from wfn Dir have wfs: "wf_tree ses" by simp
      obtain r2 s where t: "copytree (map_of des k \<noteq> None) (join root k) a ses (map_of des k) = (r2, s)"
        by (cases "copytree (map_of des k \<noteq> None) (join root k) a ses (map_of des k)")
      from copytree_some [OF t] obtain mm where s: "s = Some mm" by auto
      from m x Dir t s have d1: "d1 = AList.update k mm des" by (simp del: copytree.simps)
      from copy_dest_only(1) [OF wfs d t] s
      have e: "(case mm of Dir b es' \<Rightarrow> lookup es' ks | _ \<Rightarrow> None) =
            (case map_of des k of Some (Dir b es) \<Rightarrow> lookup es ks | _ \<Rightarrow> None)"
        by simp
      have "lookup d1 path = (case mm of Dir b es' \<Rightarrow> lookup es' ks | _ \<Rightarrow> None)"
        unfolding path True ks d1 by (simp add: update_conv' split: node.splits)
      also have "\<dots> = lookup des path"
        unfolding e unfolding path True ks by (simp split: option.splits node.splits)
      finally show ?thesis .
    qed
  qed
  show ?case
  proof (cases r1)
    case (Some e)
    with Cons.prems(3) m step show ?thesis by simp
  next
    case None
    with Cons.prems(3) m have rest: "merge_items root rest d1 = (r, des')" by simp
    show ?thesis
    proof (cases "k0 = k")
      case True
      have "map_of des' k = map_of d1 k" using merge_items_frame [OF rest nin] .
      then have "lookup des' path = lookup d1 path"
        unfolding path True by (rule lookup_cong_head)
      with step show ?thesis by simp
    next
      case False
      with Cons.prems(2) path x have "dest_only rest path" by simp
      from Cons.IH [OF wf this rest] step show ?thesis by simp
    qed
  qed
qed

lemma no_clash_cong:
  "(\<forall>k \<in> fst ` set ses. map_of d1 k = map_of d2 k) \<Longrightarrow> no_clash ses d1 = no_clash ses d2"
proof (induction ses)
  case Nil
  then show ?case by simp
next
  case (Cons x rest)
  obtain k n where x: "x = (k, n)" by (cases x)
  with Cons show ?case by (cases n) simp_all
qed

lemma no_clash_Nil [simp]: "no_clash ses []"
proof (induction ses)
  case Nil
  then show ?case by simp
next
  case (Cons x rest)
  obtain k n where x: "x = (k, n)" by (cases x)
  with Cons show ?case by (cases n) simp_all
qed

lemma contains_cong:
  "(\<forall>k \<in> fst ` set ses. map_of d1 k = map_of d2 k) \<Longrightarrow> contains ses d1 = contains ses d2"
proof (induction ses)
  case Nil
  then show ?case by simp
next
  case (Cons x rest)
  obtain k n where x: "x = (k, n)" by (cases x)
  with Cons show ?case by simp
qed

lemma copytree_error_nonempty:
  "copytree ok dst a ses cur = (Some e, s) \<Longrightarrow> errors_of e \<noteq> []"
  by (auto split: option.splits node.splits if_splits prod.splits)

lemma copy2_no_clash:
  "copy2 dst k a c cur = Inr m \<Longrightarrow> (case cur of Some (Dir b des') \<Rightarrow> False | _ \<Rightarrow> True) \<Longrightarrow>
     m = File a c"
  by (auto simp: copy2_def split: option.splits node.splits if_splits)

lemma copy_contains:
  "wf_tree ses \<Longrightarrow> (case cur of Some (Dir b des) \<Rightarrow> no_clash ses des | _ \<Rightarrow> True) \<Longrightarrow>
     copytree ok dst a ses cur = (None, s) \<Longrightarrow> \<exists>des'. s = Some (Dir a des') \<and> contains ses des'"
  "wf_tree ses \<Longrightarrow> no_clash ses des \<Longrightarrow> copy_entries ok dst ses des = ([], des') \<Longrightarrow>
     contains ses des'"
proof (induction ok dst a ses cur and ok dst ses des arbitrary: s and des'
        rule: copytree_copy_entries.induct)
  case (1 ok dst a ses cur)
  show ?case
  proof (cases cur)
    case None
    obtain errs des' where c: "copy_entries ok dst ses [] = (errs, des')"
      by (cases "copy_entries ok dst ses []")
    from "1.prems"(3) None c have e: "errs = []" and s: "s = Some (Dir a des')"
      by (auto split: if_splits)
    from "1.IH"(1) [OF None "1.prems"(1) _ c [unfolded e]] s show ?thesis by simp
  next
    case (Some n)
    show ?thesis
    proof (cases n)
      case (File ro c)
      with Some "1.prems"(3) show ?thesis by simp
    next
      case (Dir ro des)
      show ?thesis
      proof (cases ok)
        case False
        with Some Dir "1.prems"(3) show ?thesis by simp
      next
        case True
        obtain errs des' where c: "copy_entries ok dst ses des = (errs, des')"
          by (cases "copy_entries ok dst ses des")
        from True have nok: "\<not> \<not> ok" by simp
        from "1.prems"(3) Some Dir True c have e: "errs = []" and s: "s = Some (Dir a des')"
          by (auto split: if_splits)
        from "1.prems"(2) Some Dir have nc: "no_clash ses des" by simp
        from "1.IH"(2) [OF Some Dir nok "1.prems"(1) nc c [unfolded e]] s show ?thesis by simp
      qed
    qed
  qed
next
  case (2 ok dst des)
  then show ?case by simp
next
  case (3 ok dst k a c rest des)
  from "3.prems"(1) have wf: "wf_tree rest" and nin: "k \<notin> fst ` set rest" by simp_all
  from "3.prems"(2) have nc: "no_clash rest des"
    and nd: "(case map_of des k of Some (Dir b des') \<Rightarrow> False | _ \<Rightarrow> True)" by simp_all
  show ?case
  proof (cases "copy2 (join dst k) k a c (map_of des k)")
    case (Inl e)
    with "3.prems"(3) show ?thesis by (simp split: prod.splits)
  next
    case (Inr m)
    from copy2_no_clash [OF Inr nd] have m: "m = File a c" .
    from "3.prems"(3) Inr have c: "copy_entries ok dst rest (AList.update k m des) = ([], des')"
      by simp
    have "no_clash rest (AList.update k m des) = no_clash rest des"
      using nin by (intro no_clash_cong) (auto simp: update_conv')
    with nc have nc': "no_clash rest (AList.update k m des)" by simp
    from "3.IH"(2) [OF Inr wf nc' c] have "contains rest des'" .
    moreover have "map_of des' k = Some (File a c)"
      using copy_entries_frame [OF c nin] m by (simp add: update_conv')
    ultimately show ?thesis by simp
  qed
next
  case (4 ok dst k a ses rest des)
  from "4.prems"(1) have wf: "wf_tree rest" and nin: "k \<notin> fst ` set rest" and wfs: "wf_tree ses"
    by simp_all
  from "4.prems"(2) have nc: "no_clash rest des"
    and nd: "(case map_of des k of Some (Dir b des') \<Rightarrow> no_clash ses des' | _ \<Rightarrow> True)" by simp_all
  obtain r s where t: "copytree ok (join dst k) a ses (map_of des k) = (r, s)"
    by (cases "copytree ok (join dst k) a ses (map_of des k)")
  from copytree_some [OF t] obtain m where s: "s = Some m" by auto
  let ?des1 = "AList.update k m des"
  obtain errs2 des2 where c: "copy_entries ok dst rest ?des1 = (errs2, des2)"
    by (cases "copy_entries ok dst rest ?des1")
  from "4.prems"(3) t s c have des': "des' = des2" and e2: "errs2 = []"
    and er: "(case r of None \<Rightarrow> [] | Some e \<Rightarrow> errors_of e) = []"
    by (simp_all del: copytree.simps)
  have r: "r = None"
  proof (cases r)
    case (Some e)
    with t copytree_error_nonempty [of ok "join dst k" a ses "map_of des k" e s] er
    show ?thesis by simp
  qed simp
  from "4.IH"(1) [OF wfs nd t [unfolded r]] s
  obtain dk where m: "m = Dir a dk" and ck: "contains ses dk" by auto
  have "no_clash rest ?des1 = no_clash rest des"
    using nin by (intro no_clash_cong) (auto simp: update_conv')
  with nc have nc': "no_clash rest ?des1" by simp
  from "4.IH"(2) [OF t [symmetric] wf, of des2] nc' c s e2
  have "contains rest des2" by (simp del: copytree.simps)
  moreover have "map_of des2 k = Some (Dir a dk)"
    using copy_entries_frame [OF c nin] m by (simp add: update_conv')
  ultimately show ?case using des' ck by simp
qed

lemma merge_items_contains:
  "wf_tree items \<Longrightarrow> no_clash items des \<Longrightarrow> merge_items root items des = (None, des') \<Longrightarrow>
     contains items des'"
proof (induction items arbitrary: des)
  case Nil
  then show ?case by simp
next
  case (Cons x rest)
  obtain k n where x: "x = (k, n)" by (cases x)
  from Cons.prems(1) x have wf: "wf_tree rest" and nin: "k \<notin> fst ` set rest" and wfn: "wf_node n"
    by simp_all
  obtain r1 d1 where m: "merge_item root x des = (r1, d1)" by (cases "merge_item root x des")
  from Cons.prems(3) m have r1: "r1 = None" and rest: "merge_items root rest d1 = (None, des')"
    by (auto split: option.splits)
  have nc: "no_clash rest des" using Cons.prems(2) x by (cases n) simp_all
  have "\<forall>k' \<in> fst ` set rest. map_of d1 k' = map_of des k'"
  proof
    fix k' assume "k' \<in> fst ` set rest"
    with nin have "k' \<noteq> k" by auto
    with merge_item_frame [OF m, of k'] x show "map_of d1 k' = map_of des k'" by simp
  qed
  then have "no_clash rest d1 = no_clash rest des" by (rule no_clash_cong)
  with nc have nc': "no_clash rest d1" by simp
  from Cons.IH [OF wf nc' rest] have cr: "contains rest des'" .
  have fr: "map_of des' k = map_of d1 k" using merge_items_frame [OF rest nin] .
  have "\<exists>mm. map_of d1 k = Some mm \<and> contains_node n mm"
  proof (cases n)
    case (File a c)
    from Cons.prems(2) x File
    have nd: "(case map_of des k of Some (Dir b des') \<Rightarrow> False | _ \<Rightarrow> True)" by simp
    from m x File r1 obtain mm where c2: "copy2 (join root k) k a c (map_of des k) = Inr mm"
      and d1: "d1 = AList.update k mm des"
      by (auto split: sum.splits)
    from copy2_no_clash [OF c2 nd] d1 File show ?thesis by (simp add: update_conv')
  next
    case (Dir a ses)
    from Cons.prems(2) x Dir
    have nd: "(case map_of des k of Some (Dir b des') \<Rightarrow> no_clash ses des' | _ \<Rightarrow> True)" by simp
    from wfn Dir have wfs: "wf_tree ses" by simp
    obtain s where t: "copytree (map_of des k \<noteq> None) (join root k) a ses (map_of des k) = (None, s)"
      using m x Dir r1 by (cases "copytree (map_of des k \<noteq> None) (join root k) a ses (map_of des k)")
        (simp del: copytree.simps)
    from copy_contains(1) [OF wfs nd t] obtain dk where s: "s = Some (Dir a dk)"
      and ck: "contains ses dk" by auto
    from m x Dir t s have "d1 = AList.update k (Dir a dk) des" by (simp del: copytree.simps)
    with ck Dir show ?thesis by (simp add: update_conv')
  qed
  with fr cr x show ?case by auto
qed
lemma worktree_of_fs: "fs w p = Some (Dir ro es) \<Longrightarrow> worktree w p = es"
  by (simp add: worktree_def)

lemma copy_items_worktree:
  assumes "fs w root = Some (Dir ro des)" and "merge_items root items des = (r, d1)"
  shows "worktree (snd (copy_items_clone root items w)) root = d1"
    and "worktree (snd (copy_items_existing root items w)) root = d1"
  using copy_items_clone_refines [OF assms] copy_items_existing_refines [OF assms]
  by (simp_all add: worktree_def)

text \<open>
  C7. Copying a source directory onto a destination directory of the same name leaves
  every entry of the destination whose name the source does not have as it was, whether
  or not the copy raises; so does, at the checkout's root, the loop of either operation.
  The same holds at every depth: a path that leaves the source tree at some directory
  (\<open>dest_only\<close>) leads to the same node before and after.
\<close>

theorem merge_keeps_destination_only:
  "(copytree True dst a ses (Some (Dir b des)) = (r, s) \<longrightarrow>
      (\<exists>des'. s = Some (Dir a des')
         \<and> (\<forall>k. k \<notin> fst ` set ses \<longrightarrow> map_of des' k = map_of des k)
         \<and> (\<forall>path. wf_tree ses \<and> dest_only ses path \<longrightarrow> lookup des' path = lookup des path)))
   \<and> (fs w root = Some (Dir ro des0) \<longrightarrow>
        (\<forall>k. k \<notin> fst ` set items \<longrightarrow>
           map_of (worktree (snd (copy_items_clone root items w)) root) k = map_of des0 k
           \<and> map_of (worktree (snd (copy_items_existing root items w)) root) k = map_of des0 k)
        \<and> (\<forall>path. wf_tree items \<and> dest_only items path \<longrightarrow>
           lookup (worktree (snd (copy_items_clone root items w)) root) path = lookup des0 path
           \<and> lookup (worktree (snd (copy_items_existing root items w)) root) path = lookup des0 path))"
proof (intro conjI impI)
  assume t: "copytree True dst a ses (Some (Dir b des)) = (r, s)"
  from copytree_frame [OF t] obtain des' where s: "s = Some (Dir a des')"
    and f: "\<forall>k. k \<notin> fst ` set ses \<longrightarrow> map_of des' k = map_of des k" by blast
  have "\<forall>path. wf_tree ses \<and> dest_only ses path \<longrightarrow> lookup des' path = lookup des path"
    using copy_dest_only(1) [OF _ _ t] s by auto
  with s f show "\<exists>des'. s = Some (Dir a des')
         \<and> (\<forall>k. k \<notin> fst ` set ses \<longrightarrow> map_of des' k = map_of des k)
         \<and> (\<forall>path. wf_tree ses \<and> dest_only ses path \<longrightarrow> lookup des' path = lookup des path)"
    by blast
next
  assume f: "fs w root = Some (Dir ro des0)"
  obtain r1 d1 where m: "merge_items root items des0 = (r1, d1)"
    by (cases "merge_items root items des0")
  note wt = copy_items_worktree [OF f m]
  show "\<forall>k. k \<notin> fst ` set items \<longrightarrow>
           map_of (worktree (snd (copy_items_clone root items w)) root) k = map_of des0 k
           \<and> map_of (worktree (snd (copy_items_existing root items w)) root) k = map_of des0 k"
    unfolding wt using merge_items_frame [OF m] by blast
  show "\<forall>path. wf_tree items \<and> dest_only items path \<longrightarrow>
           lookup (worktree (snd (copy_items_clone root items w)) root) path = lookup des0 path
           \<and> lookup (worktree (snd (copy_items_existing root items w)) root) path = lookup des0 path"
    unfolding wt using merge_items_dest_only [OF _ _ m] by blast
qed

theorem merge_keeps_destination_only_witness:
  "copytree True ''/w/repo/docs'' False [(''n.md'', File True ''N'')]
       (Some (Dir False [(''old.md'', File False ''O'')])) =
     (None, Some (Dir False [(''old.md'', File False ''O''), (''n.md'', File True ''N'')]))
   \<and> ''old.md'' \<notin> fst ` set [(''n.md'', File True ''N'')]
   \<and> wf_tree [(''a.txt'', File False ''A''), (''docs'', Dir False [(''n.md'', File True ''N'')])]
   \<and> dest_only [(''a.txt'', File False ''A''), (''docs'', Dir False [(''n.md'', File True ''N'')])]
        [''docs'', ''old.md'']
   \<and> lookup (worktree (snd (copy_items_existing ''/w/repo''
          [(''a.txt'', File False ''A''), (''docs'', Dir False [(''n.md'', File True ''N'')])]
          ex_existing)) ''/w/repo'') [''docs'', ''old.md''] = Some (File False ''O'')
   \<and> map_of (worktree (snd (copy_items_clone ''/w/repo''
          [(''a.txt'', File False ''A''), (''docs'', Dir False [(''n.md'', File True ''N'')])]
          ex_existing)) ''/w/repo'') ''r.txt'' = Some (File False ''R'')"
proof -
  let ?items = "[(''a.txt'', File False ''A''), (''docs'', Dir False [(''n.md'', File True ''N'')])]"
  let ?des0 = "[(''docs'', Dir False [(''old.md'', File False ''O'')]), (''r.txt'', File False ''R'')]"
  have a: "copytree True ''/w/repo/docs'' False [(''n.md'', File True ''N'')]
       (Some (Dir False [(''old.md'', File False ''O'')])) =
     (None, Some (Dir False [(''old.md'', File False ''O''), (''n.md'', File True ''N'')]))"
    by code_simp
  have b: "fs ex_existing ''/w/repo'' = Some (Dir False ?des0)"
    by code_simp
  have c: "wf_tree ?items" "dest_only ?items [''docs'', ''old.md'']"
    "''old.md'' \<notin> fst ` set [(''n.md'', File True ''N'')]" "''r.txt'' \<notin> fst ` set ?items"
    by simp_all
  have d: "lookup ?des0 [''docs'', ''old.md''] = Some (File False ''O'')"
    "map_of ?des0 ''r.txt'' = Some (File False ''R'')"
    by simp_all
  note T = merge_keeps_destination_only [where dst = "''/w/repo/docs''" and a = False
      and ses = "[(''n.md'', File True ''N'')]" and b = False
      and des = "[(''old.md'', File False ''O'')]" and r = None
      and s = "Some (Dir False [(''old.md'', File False ''O''), (''n.md'', File True ''N'')])"
      and w = ex_existing and root = "''/w/repo''" and ro = False and ?des0.0 = ?des0
      and items = ?items]
  from T b c(1,2) have e: "lookup (worktree (snd (copy_items_existing ''/w/repo'' ?items ex_existing))
       ''/w/repo'') [''docs'', ''old.md''] = lookup ?des0 [''docs'', ''old.md'']"
    by blast
  from T b c(4) have f: "map_of (worktree (snd (copy_items_clone ''/w/repo'' ?items ex_existing))
       ''/w/repo'') ''r.txt'' = map_of ?des0 ''r.txt''"
    by blast
  from a c e f d show ?thesis by simp
qed

lemma listdir_dir: "fs w l = Some (Dir a items) \<Longrightarrow> listdir w l = Inr items"
  by (simp add: listdir_def)

lemma merge_clone_result:
  assumes "fs w l = Some (Dir la items)" and "fs w root = Some (Dir ro des)"
    and "merge_items root items des = (r, d1)"
  shows "fst (merge_clone l root w) = (case r of None \<Rightarrow> Inr () | Some e \<Rightarrow> Inl e)"
    and "worktree (snd (merge_clone l root w)) root = d1"
proof -
  let ?w1 = "print_line (''Copying contents from '' @ l @ '' to '' @ root) w"
  have f: "fs ?w1 root = Some (Dir ro des)" and l: "listdir ?w1 l = Inr items"
    using assms(1,2) by (simp_all add: listdir_def)
  note c = copy_items_clone_refines [OF f assms(3)]
  obtain q w2 where q: "copy_items_clone root items ?w1 = (q, w2)"
    by (cases "copy_items_clone root items ?w1")
  with c have w2: "fs w2 root = Some (Dir ro d1)"
    and qq: "q = (case r of None \<Rightarrow> Inr () | Some e \<Rightarrow> Inl e)" by simp_all
  have m: "merge_clone l root w =
        (case q of Inl e \<Rightarrow> (Inl e, w2) | Inr u \<Rightarrow> (Inr (), print_line ''Files copied successfully'' w2))"
    using l q by (simp add: merge_clone_def seq_def pr_def split: sum.splits)
  show "fst (merge_clone l root w) = (case r of None \<Rightarrow> Inr () | Some e \<Rightarrow> Inl e)"
    unfolding m qq by (simp split: option.splits)
  show "worktree (snd (merge_clone l root w)) root = d1"
    unfolding m using w2 by (simp add: worktree_def split: sum.splits)
qed

lemma merge_existing_result:
  assumes "fs w l = Some (Dir la items)" and "fs w root = Some (Dir ro des)"
    and "merge_items root items des = (r, d1)"
  shows "fst (merge_existing l root w) = (case r of None \<Rightarrow> Inr () | Some e \<Rightarrow> Inl e)"
    and "worktree (snd (merge_existing l root w)) root = d1"
  using copy_items_existing_refines [OF assms(2,3)] assms(1)
  by (simp_all add: merge_existing_def listdir_def worktree_def)

lemma git_add_all_fs: "fs (snd (git_add_all p w)) = fs w"
  by (auto simp: git_add_all_def split: option.splits)

lemma index_commit_fs: "fs (snd (index_commit m p w)) = fs w"
  by (auto simp: index_commit_def split: option.splits)

lemma push_origin_fs: "fs (snd (push_origin p w)) = fs w"
  by (auto simp: push_origin_def split: option.splits)

lemma seq_fs:
  "(\<And>w. fs (snd (f w)) = fs w) \<Longrightarrow> (\<And>w. fs (snd (g w)) = fs w) \<Longrightarrow> fs (snd (seq f g w)) = fs w"
  by (auto simp: seq_def split: prod.splits sum.splits) (metis snd_conv)+

lemma pr_fs: "fs (snd (pr s w)) = fs w"
  by (simp add: pr_def)

lemma push_clone_fs: "fs (snd (push_clone p w)) = fs w"
  using push_origin_fs [of p w]
  by (auto simp: push_clone_def try_except_def seq_def pr_def raise_def split: prod.splits sum.splits)

lemma publish_existing_fs: "fs (snd (publish_existing m p w)) = fs w"
  unfolding publish_existing_def
  by (auto intro!: seq_fs index_commit_fs pr_fs push_origin_fs)

lemma publish_clone_fs: "fs (snd (publish_clone m p w)) = fs w"
proof -
  have "\<And>w. fs (snd ((\<lambda>w. if has_changes w p
              then seq (index_commit m p) (seq (pr (''Changes committed: '' @ m)) (push_clone p)) w
              else pr ''No changes to commit'' w) w)) = fs w"
    by (auto intro!: seq_fs index_commit_fs pr_fs push_clone_fs)
  then show ?thesis
    unfolding publish_clone_def
    by (intro seq_fs git_add_all_fs pr_fs)
qed

text \<open>
  C1, as amended. When the copy loop of either operation ends without an exception, the
  checkout's root contains the source folder: every top-level file of the source is there
  under its name with the source's contents and permission bits, whatever file was there
  before, and every top-level directory is there as a directory that contains, in turn,
  the entries of the source directory. This is for a well-formed source folder other than
  the checkout, none of whose files has the name of a directory at the same place of the
  checkout. The staging, the commit and the push leave the directory trees as the copy
  left them.
\<close>

theorem merge_puts_source_at_root:
  "(fs w l = Some (Dir la items) \<and> fs w root = Some (Dir ro des) \<and> l \<noteq> root
      \<and> wf_tree items \<and> no_clash items des \<longrightarrow>
      (fst (merge_clone l root w) = Inr () \<longrightarrow>
         contains items (worktree (snd (merge_clone l root w)) root))
      \<and> (fst (merge_existing l root w) = Inr () \<longrightarrow>
         contains items (worktree (snd (merge_existing l root w)) root)))
   \<and> fs (snd (publish_clone m root w)) = fs w
   \<and> fs (snd (git_add_all root w)) = fs w
   \<and> fs (snd (publish_existing m root w)) = fs w"
proof (intro conjI impI)
  assume h: "fs w l = Some (Dir la items) \<and> fs w root = Some (Dir ro des) \<and> l \<noteq> root
      \<and> wf_tree items \<and> no_clash items des"
  obtain r d1 where m: "merge_items root items des = (r, d1)"
    by (cases "merge_items root items des")
  from h have a: "fs w l = Some (Dir la items)" and b: "fs w root = Some (Dir ro des)"
    and wf: "wf_tree items" and nc: "no_clash items des" by simp_all
  {
    assume "fst (merge_clone l root w) = Inr ()"
    with merge_clone_result(1) [OF a b m] have "r = None" by (simp split: option.splits)
    with merge_items_contains [OF wf nc] m have "contains items d1" by simp
    then show "contains items (worktree (snd (merge_clone l root w)) root)"
      using merge_clone_result(2) [OF a b m] by simp
  }
  {
    assume "fst (merge_existing l root w) = Inr ()"
    with merge_existing_result(1) [OF a b m] have "r = None" by (simp split: option.splits)
    with merge_items_contains [OF wf nc] m have "contains items d1" by simp
    then show "contains items (worktree (snd (merge_existing l root w)) root)"
      using merge_existing_result(2) [OF a b m] by simp
  }
qed (rule publish_clone_fs git_add_all_fs publish_existing_fs)+

theorem merge_puts_source_at_root_witness:
  "fst (merge_existing ''/w/src'' ''/w/repo'' ex_existing) = Inr ()
   \<and> fst (merge_clone ''/w/src'' ''/w/repo'' ex_existing) = Inr ()
   \<and> contains [(''a.txt'', File False ''A''), (''docs'', Dir False [(''n.md'', File True ''N'')])]
        (worktree (snd (merge_existing ''/w/src'' ''/w/repo'' ex_existing)) ''/w/repo'')
   \<and> contains [(''a.txt'', File False ''A''), (''docs'', Dir False [(''n.md'', File True ''N'')])]
        (worktree (snd (merge_clone ''/w/src'' ''/w/repo'' ex_existing)) ''/w/repo'')"
proof -
  let ?items = "[(''a.txt'', File False ''A''), (''docs'', Dir False [(''n.md'', File True ''N'')])]"
  let ?des = "[(''docs'', Dir False [(''old.md'', File False ''O'')]), (''r.txt'', File False ''R'')]"
  have a: "fs ex_existing ''/w/src'' = Some (Dir False ?items)"
    "fs ex_existing ''/w/repo'' = Some (Dir False ?des)"
    by code_simp+
  have b: "''/w/src'' \<noteq> ''/w/repo''" "wf_tree ?items" "no_clash ?items ?des"
    by simp_all
  have c: "fst (merge_existing ''/w/src'' ''/w/repo'' ex_existing) = Inr ()"
    "fst (merge_clone ''/w/src'' ''/w/repo'' ex_existing) = Inr ()"
    by code_simp+
  from a b c merge_puts_source_at_root [where w = ex_existing and l = "''/w/src''"
      and la = False and items = ?items and root = "''/w/repo''" and ro = False and des = ?des
      and m = "''msg''"]
  show ?thesis by blast
qed

text \<open>
  The claim as stated fails in two ways. After a successful run of
  \<^verbatim>\<open>clone_and_push_folder_fixed\<close> (committed and pushed) the checkout does not
  exist any more. And a source file with the name of a directory of the checkout is
  written inside that directory by \<^verbatim>\<open>shutil.copy2\<close>: the run succeeds, the name at
  the root is still the directory, and the file is one level down.
\<close>

theorem merge_puts_source_at_root_counterexample:
  "events (snd (clone_and_push_folder_fixed ''url'' ''src'' ''temp_repo'' ''msg'' ''main'' ex_world)) =
     [EvCommit ''/w/temp_repo'' ''msg'', EvPush ''url'' ''main'']
   \<and> fs (snd (clone_and_push_folder_fixed ''url'' ''src'' ''temp_repo'' ''msg'' ''main'' ex_world))
       ''/w/temp_repo'' = None
   \<and> fs ex_clash ''/w/src'' = Some (Dir False [(''docs'', File False ''D'')])
   \<and> events (snd (push_to_existing_repo ''src'' ''repo'' ''msg'' ''main'' ex_clash)) =
       [EvCommit ''/w/repo'' ''msg'', EvPush ''url'' ''main'']
   \<and> lookup (worktree (snd (push_to_existing_repo ''src'' ''repo'' ''msg'' ''main'' ex_clash)) ''/w/repo'')
       [''docs''] = Some (Dir False [(''old.md'', File False ''O''), (''docs'', File False ''D'')])
   \<and> \<not> contains [(''docs'', File False ''D'')]
       (worktree (snd (push_to_existing_repo ''src'' ''repo'' ''msg'' ''main'' ex_clash)) ''/w/repo'')"
  by code_simp

section \<open>Two runs in succession\<close>

subsection \<open>A fresh checkout of a tree\<close>

lemma files_of_none:
  "\<not> has_file n \<Longrightarrow> files_of_node p n = []"
  "\<not> has_files t \<Longrightarrow> files_of p t = []"
  by (induction n and t arbitrary: p and p rule: has_file_has_files.induct) simp_all

lemma files_of_checkout:
  "files_of_node p (checkout_node n) = files_of_node p n"
  "files_of p (checkout_tree t) = files_of p t"
  by (induction n and t arbitrary: p and p rule: checkout_node_checkout_tree.induct)
     (simp_all add: files_of_none)

lemma has_file_checkout:
  "has_file (checkout_node n) = has_file n"
  "has_files (checkout_tree t) = has_files t"
  by (induction n and t rule: checkout_node_checkout_tree.induct) simp_all

lemma checkout_idem:
  "checkout_node (checkout_node n) = checkout_node n"
  "checkout_tree (checkout_tree t) = checkout_tree t"
  by (induction n and t rule: checkout_node_checkout_tree.induct)
     (simp_all add: has_file_checkout)

lemma checkout_tree_empty: "(checkout_tree t = []) = (\<not> has_files t)"
  by (induction t) (auto split: if_splits)

lemma kept_simps [simp]:
  "kept None = None"
  "kept (Some v) = (if has_file v then Some (checkout_node v) else None)"
  by (simp_all add: kept_def)

lemma checkout_update:
  "kept (Some m) = kept (map_of E k) \<Longrightarrow> checkout_tree (AList.update k m E) = checkout_tree E"
proof (induction E)
  case Nil
  then show ?case by (simp split: if_splits)
next
  case (Cons x E)
  obtain k0 v where x: "x = (k0, v)" by (cases x)
  with Cons show ?case by (auto split: if_splits)
qed

lemma map_of_checkout_update:
  "has_file m \<Longrightarrow> map_of (checkout_tree (AList.update k m t)) k = Some (checkout_node m)"
proof (induction t)
  case Nil
  then show ?case by simp
next
  case (Cons x t)
  obtain k0 v where x: "x = (k0, v)" by (cases x)
  with Cons show ?case by auto
qed

lemma map_of_checkout_notin:
  "k \<notin> fst ` set t \<Longrightarrow> map_of (checkout_tree t) k = None"
  by (induction t) (auto split: if_splits)

lemma map_of_checkout:
  "wf_tree t \<Longrightarrow> map_of (checkout_tree t) k = kept (map_of t k)"
proof (induction t)
  case Nil
  then show ?case by simp
next
  case (Cons x t)
  obtain k0 v where x: "x = (k0, v)" by (cases x)
  with Cons show ?case by (auto simp: map_of_checkout_notin)
qed

lemma fst_checkout_subset: "k \<in> fst ` set (checkout_tree t) \<Longrightarrow> k \<in> fst ` set t"
proof (induction t)
  case Nil
  then show ?case by simp
next
  case (Cons x t)
  obtain k0 v where x: "x = (k0, v)" by (cases x)
  from Cons.prems x have "k = k0 \<or> k \<in> fst ` set (checkout_tree t)"
    by (auto split: if_splits)
  with Cons.IH x show ?case by auto
qed

lemma wf_checkout:
  "wf_node n \<Longrightarrow> wf_node (checkout_node n)"
  "wf_tree t \<Longrightarrow> wf_tree (checkout_tree t)"
proof (induction n and t rule: checkout_node_checkout_tree.induct)
  case (4 k n rest)
  then show ?case using fst_checkout_subset [of k rest] by auto
qed simp_all

lemma fst_update: "fst ` set (AList.update k m t) = insert k (fst ` set t)"
  by (induction t) auto

lemma wf_update: "wf_tree t \<Longrightarrow> wf_node m \<Longrightarrow> wf_tree (AList.update k m t)"
proof (induction t)
  case Nil
  then show ?case by simp
next
  case (Cons x t)
  obtain k0 v where x: "x = (k0, v)" by (cases x)
  with Cons show ?case by (auto simp: fst_update)
qed

lemma wf_map_of: "wf_tree t \<Longrightarrow> map_of t k = Some v \<Longrightarrow> wf_node v"
  by (induction t) (auto split: if_splits)

lemma has_files_update:
  "has_file m \<Longrightarrow> has_files (AList.update k m t)"
  by (induction t) auto

subsection \<open>Copying the same source a second time\<close>

lemma has_files_map_of: "map_of t k = Some v \<Longrightarrow> has_file v \<Longrightarrow> has_files t"
  by (induction t) (auto split: if_splits)

lemma has_files_update_mono:
  "(\<And>v. map_of des k = Some v \<Longrightarrow> has_file v \<Longrightarrow> has_file m) \<Longrightarrow>
     has_files (AList.update k m des) = (has_files des \<or> has_file m)"
proof (induction des)
  case Nil
  then show ?case by simp
next
  case (Cons x des)
  obtain k0 v where x: "x = (k0, v)" by (cases x)
  show ?case
  proof (cases "k0 = k")
    case True
    with x Cons.prems [of v] show ?thesis by auto
  next
    case False
    with x Cons.IH Cons.prems show ?thesis by auto
  qed
qed

lemma copy2_has_file: "copy2 dst k a c cur = Inr m \<Longrightarrow> has_file m"
  by (auto simp: copy2_def has_files_update split: option.splits node.splits if_splits)

lemma copy2_wf: "copy2 dst k a c cur = Inr m \<Longrightarrow> (\<And>v. cur = Some v \<Longrightarrow> wf_node v) \<Longrightarrow> wf_node m"
  by (auto simp: copy2_def wf_update split: option.splits node.splits if_splits)

lemma copy_has_files:
  "copytree ok dst a ses cur = (None, Some M) \<Longrightarrow>
     has_file M = (has_files ses \<or> (case cur of Some v \<Rightarrow> has_file v | None \<Rightarrow> False))"
  "copy_entries ok dst ses des = ([], des') \<Longrightarrow> has_files des' = (has_files des \<or> has_files ses)"
proof (induction ok dst a ses cur and ok dst ses des arbitrary: M and des'
        rule: copytree_copy_entries.induct)
  case (1 ok dst a ses cur)
  show ?case
  proof (cases cur)
    case None
    obtain errs des' where c: "copy_entries ok dst ses [] = (errs, des')"
      by (cases "copy_entries ok dst ses []")
    from "1.prems" None c have e: "errs = []" and s: "M = Dir a des'"
      by (auto split: if_splits)
    from "1.IH"(1) [OF None c [unfolded e]] s None show ?thesis by simp
  next
    case (Some n)
    show ?thesis
    proof (cases n)
      case (File ro c)
      with Some "1.prems" show ?thesis by simp
    next
      case (Dir ro des)
      show ?thesis
      proof (cases ok)
        case False
        with Some Dir "1.prems" show ?thesis by simp
      next
        case True
        obtain errs des' where c: "copy_entries ok dst ses des = (errs, des')"
          by (cases "copy_entries ok dst ses des")
        from True have nok: "\<not> \<not> ok" by simp
        from "1.prems" Some Dir True c have e: "errs = []" and s: "M = Dir a des'"
          by (auto split: if_splits)
        from "1.IH"(2) [OF Some Dir nok c [unfolded e]] s Some Dir show ?thesis by auto
      qed
    qed
  qed
next
  case (2 ok dst des)
  then show ?case by simp
next
  case (3 ok dst k a c rest des)
  show ?case
  proof (cases "copy2 (join dst k) k a c (map_of des k)")
    case (Inl e)
    with "3.prems" show ?thesis by (simp split: prod.splits)
  next
    case (Inr m)
    from "3.prems" Inr have c: "copy_entries ok dst rest (AList.update k m des) = ([], des')"
      by simp
    from "3.IH"(2) [OF Inr c] copy2_has_file [OF Inr] show ?thesis
      by (simp add: has_files_update)
  qed
next
  case (4 ok dst k a ses rest des)
  obtain r s where t: "copytree ok (join dst k) a ses (map_of des k) = (r, s)"
    by (cases "copytree ok (join dst k) a ses (map_of des k)")
  from copytree_some [OF t] obtain m where s: "s = Some m" by auto
  let ?des1 = "AList.update k m des"
  obtain errs2 des2 where c: "copy_entries ok dst rest ?des1 = (errs2, des2)"
    by (cases "copy_entries ok dst rest ?des1")
  from "4.prems" t s c have des': "des' = des2" and e2: "errs2 = []"
    and er: "(case r of None \<Rightarrow> [] | Some e \<Rightarrow> errors_of e) = []"
    by (simp_all del: copytree.simps)
  have r: "r = None"
  proof (cases r)
    case (Some e)
    with t copytree_error_nonempty [of ok "join dst k" a ses "map_of des k" e s] er
    show ?thesis by simp
  qed simp
  from "4.IH"(1) [OF t [unfolded r s]]
  have hm: "has_file m = (has_files ses \<or> (case map_of des k of Some v \<Rightarrow> has_file v | None \<Rightarrow> False))" .
  then have "has_files ?des1 = (has_files des \<or> has_file m)"
    by (intro has_files_update_mono) simp
  also have "\<dots> = (has_files des \<or> has_files ses)"
    using hm has_files_map_of [of des k] by (auto split: option.splits)
  finally have h1: "has_files ?des1 = (has_files des \<or> has_files ses)" .
  from "4.IH"(2) [OF t [symmetric], of des2] c s e2
  have "has_files des2 = (has_files ?des1 \<or> has_files rest)" by (simp del: copytree.simps)
  with h1 des' show ?case by auto
qed

lemma copy_wf:
  "(\<And>v. cur = Some v \<Longrightarrow> wf_node v) \<Longrightarrow> copytree ok dst a ses cur = (r, Some M) \<Longrightarrow> wf_node M"
  "wf_tree des \<Longrightarrow> copy_entries ok dst ses des = (errs, des') \<Longrightarrow> wf_tree des'"
proof (induction ok dst a ses cur and ok dst ses des arbitrary: r M and errs des'
        rule: copytree_copy_entries.induct)
  case (1 ok dst a ses cur)
  show ?case
  proof (cases cur)
    case None
    obtain errs des' where c: "copy_entries ok dst ses [] = (errs, des')"
      by (cases "copy_entries ok dst ses []")
    from "1.prems"(2) None c have s: "M = Dir a des'" by (auto split: if_splits)
    from "1.IH"(1) [OF None _ c] s show ?thesis by simp
  next
    case (Some n)
    show ?thesis
    proof (cases n)
      case (File ro c)
      with Some "1.prems" show ?thesis by auto
    next
      case (Dir ro des)
      show ?thesis
      proof (cases ok)
        case False
        with Some Dir "1.prems" show ?thesis by auto
      next
        case True
        obtain errs des' where c: "copy_entries ok dst ses des = (errs, des')"
          by (cases "copy_entries ok dst ses des")
        from True have nok: "\<not> \<not> ok" by simp
        from "1.prems"(2) Some Dir True c have s: "M = Dir a des'" by (auto split: if_splits)
        from "1.prems"(1) [OF Some] Dir have "wf_tree des" by simp
        from "1.IH"(2) [OF Some Dir nok this c] s show ?thesis by simp
      qed
    qed
  qed
next
  case (2 ok dst des)
  then show ?case by simp
next
  case (3 ok dst k a c rest des)
  show ?case
  proof (cases "copy2 (join dst k) k a c (map_of des k)")
    case (Inl e)
    obtain errs2 des2 where c: "copy_entries ok dst rest des = (errs2, des2)"
      by (cases "copy_entries ok dst rest des")
    from "3.IH"(1) [OF Inl "3.prems"(1) c] "3.prems"(2) Inl c show ?thesis by simp
  next
    case (Inr m)
    from "3.prems"(2) Inr have c: "copy_entries ok dst rest (AList.update k m des) = (errs, des')"
      by simp
    have "wf_node m" using copy2_wf [OF Inr] wf_map_of [OF "3.prems"(1)] by blast
    with "3.prems"(1) have "wf_tree (AList.update k m des)" by (simp add: wf_update)
    from "3.IH"(2) [OF Inr this c] show ?thesis .
  qed
next
  case (4 ok dst k a ses rest des)
  obtain r s where t: "copytree ok (join dst k) a ses (map_of des k) = (r, s)"
    by (cases "copytree ok (join dst k) a ses (map_of des k)")
  from copytree_some [OF t] obtain m where s: "s = Some m" by auto
  let ?des1 = "AList.update k m des"
  obtain errs2 des2 where c: "copy_entries ok dst rest ?des1 = (errs2, des2)"
    by (cases "copy_entries ok dst rest ?des1")
  from "4.prems"(2) t s c have des': "des' = des2" by (simp del: copytree.simps)
  have "wf_node m"
    using "4.IH"(1) [OF _ t [unfolded s]] wf_map_of [OF "4.prems"(1)] by blast
  with "4.prems"(1) have w1: "wf_tree ?des1" by (simp add: wf_update)
  from "4.IH"(2) [OF t [symmetric], of errs2 des2] w1 c s des' show ?case
    by (simp del: copytree.simps)
qed

lemma copy_fresh:
  "wf_tree ses \<Longrightarrow> fst (copytree ok dst a ses None) = None"
  "wf_tree ses \<Longrightarrow> fst ` set ses \<inter> fst ` set des = {} \<Longrightarrow> fst (copy_entries ok dst ses des) = []"
proof (induction ok dst a ses "None :: node option" and ok dst ses des
        rule: copytree_copy_entries.induct)
  case (1 ok dst a ses)
  from "1.hyps"(1) [OF refl "1.prems"] show ?case by (auto split: prod.splits)
next
  case (2 ok dst des)
  then show ?case by simp
next
  case (3 ok dst k a c rest des)
  from "3.prems" have nk: "map_of des k = None" and wf: "wf_tree rest"
    and nin: "k \<notin> fst ` set rest"
    by (auto simp: map_of_eq_None_iff)
  then have c2: "copy2 (join dst k) k a c (map_of des k) = Inr (File a c)"
    by (simp add: copy2_def)
  have d: "fst ` set rest \<inter> fst ` set (AList.update k (File a c) des) = {}"
    using "3.prems"(2) nin by (auto simp: fst_update)
  from "3.hyps"(2) [OF c2 wf d] c2 show ?case by simp
next
  case (4 ok dst k a ses rest des)
  from "4.prems" have nk: "map_of des k = None" and wf: "wf_tree rest"
    and nin: "k \<notin> fst ` set rest" and wfs: "wf_tree ses"
    by (auto simp: map_of_eq_None_iff)
  obtain r s where t: "copytree ok (join dst k) a ses (map_of des k) = (r, s)"
    by (cases "copytree ok (join dst k) a ses (map_of des k)")
  from copytree_some [OF t] obtain m where s: "s = Some m" by auto
  from "4.hyps"(1) [OF nk wfs] t nk have r: "r = None" by simp
  have d: "fst ` set rest \<inter> fst ` set (AList.update k m des) = {}"
    using "4.prems"(2) nin by (auto simp: fst_update)
  from "4.hyps"(2) [OF t [symmetric] wf] d s t r show ?case
    by (simp del: copytree.simps split: prod.splits)
qed

lemma kept_kept [simp]: "kept (kept x) = kept x"
  by (cases x) (simp_all add: has_file_checkout checkout_idem)

lemma copy2_again:
  assumes "copy2 dst k a c cur = Inr M"
  shows "\<exists>M2. copy2 dst k a c (kept (Some M)) = Inr M2 \<and> kept (Some M2) = kept (Some M)"
proof -
  have "M = File a c \<or> (\<exists>ro inner. cur = Some (Dir ro inner)
      \<and> M = Dir ro (AList.update k (File a c) inner))"
    using assms by (auto simp: copy2_def split: option.splits node.splits if_splits)
  then show ?thesis
  proof (elim disjE exE conjE)
    assume "M = File a c"
    then show ?thesis by (simp add: copy2_def)
  next
    fix ro inner
    assume dir: "cur = Some (Dir ro inner)" "M = Dir ro (AList.update k (File a c) inner)"
    let ?X = "AList.update k (File a c) inner"
    have hf: "has_files ?X" by (simp add: has_files_update)
    have mo: "map_of (checkout_tree ?X) k = Some (File False c)"
      using map_of_checkout_update [of "File a c" k inner] by simp
    have c2: "copy2 dst k a c (kept (Some M)) =
            Inr (Dir False (AList.update k (File a c) (checkout_tree ?X)))"
      using dir(2) hf mo by (simp add: copy2_def)
    have "checkout_tree (AList.update k (File a c) (checkout_tree ?X)) = checkout_tree (checkout_tree ?X)"
      by (rule checkout_update) (simp add: mo)
    then have "kept (Some (Dir False (AList.update k (File a c) (checkout_tree ?X)))) = kept (Some M)"
      using dir(2) hf by (simp add: has_files_update checkout_idem)
    with c2 show ?thesis by blast
  qed
qed

lemma copy_again:
  "wf_tree ses \<Longrightarrow> (\<And>v. cur = Some v \<Longrightarrow> wf_node v) \<Longrightarrow>
     copytree ok dst a ses cur = (None, Some M) \<Longrightarrow> ok2 \<or> \<not> has_file M \<Longrightarrow>
     \<exists>M2. copytree ok2 dst a ses (kept (Some M)) = (None, Some M2) \<and> kept (Some M2) = kept (Some M)"
  "wf_tree ses \<Longrightarrow> wf_tree des \<Longrightarrow> copy_entries ok dst ses des = ([], des1) \<Longrightarrow>
     (\<And>k. k \<in> fst ` set ses \<Longrightarrow> map_of E k = kept (map_of des1 k)) \<Longrightarrow>
     \<exists>E2. copy_entries True dst ses E = ([], E2) \<and> checkout_tree E2 = checkout_tree E"
proof (induction ok dst a ses cur and ok dst ses des arbitrary: M ok2 and des1 E
        rule: copytree_copy_entries.induct)
  case (1 ok dst a ses cur)
  have run1: "\<exists>des0 des1. copy_entries ok dst ses des0 = ([], des1) \<and> M = Dir a des1 \<and> wf_tree des0
       \<and> (cur = None \<and> des0 = [] \<or> (\<exists>ro. cur = Some (Dir ro des0) \<and> ok))"
  proof (cases cur)
    case None
    obtain errs des' where c: "copy_entries ok dst ses [] = (errs, des')"
      by (cases "copy_entries ok dst ses []")
    from "1.prems"(3) None c have "errs = []" "M = Dir a des'" by (auto split: if_splits)
    with c None show ?thesis by auto
  next
    case (Some n)
    show ?thesis
    proof (cases n)
      case (File ro c)
      with Some "1.prems"(3) show ?thesis by simp
    next
      case (Dir ro des)
      show ?thesis
      proof (cases ok)
        case False
        with Some Dir "1.prems"(3) show ?thesis by simp
      next
        case True
        obtain errs des' where c: "copy_entries ok dst ses des = (errs, des')"
          by (cases "copy_entries ok dst ses des")
        from "1.prems"(3) Some Dir True c have "errs = []" "M = Dir a des'"
          by (auto split: if_splits)
        moreover from "1.prems"(2) [OF Some] Dir have "wf_tree des" by simp
        ultimately show ?thesis using c Some Dir True by auto
      qed
    qed
  qed
  then obtain des0 des1 where c: "copy_entries ok dst ses des0 = ([], des1)"
    and M: "M = Dir a des1" and wf0: "wf_tree des0"
    and cur: "cur = None \<and> des0 = [] \<or> (\<exists>ro. cur = Some (Dir ro des0) \<and> ok)" by blast
  have wf1: "wf_tree des1" using copy_wf(2) [OF wf0 c] .
  show ?case
  proof (cases "has_file M")
    case False
    from copy_has_files(1) [OF "1.prems"(3)] False have ns: "\<not> has_files ses" by simp
    obtain r2 s2 where t2: "copytree ok2 dst a ses None = (r2, s2)"
      by (cases "copytree ok2 dst a ses None")
    from copy_fresh(1) [OF "1.prems"(1), of ok2 dst a] t2 have r2: "r2 = None" by simp
    from copytree_some [OF t2] obtain M2 where s2: "s2 = Some M2" by auto
    from copy_has_files(1) [OF t2 [unfolded r2 s2]] ns have "\<not> has_file M2" by simp
    with False t2 r2 s2 show ?thesis by simp
  next
    case True
    with "1.prems"(4) have ok2: "ok2" by simp
    from True M have h1: "has_files des1" by simp
    let ?E = "checkout_tree des1"
    have agree: "\<And>k. k \<in> fst ` set ses \<Longrightarrow> map_of ?E k = kept (map_of des1 k)"
      using map_of_checkout [OF wf1] by simp
    have "\<exists>E2. copy_entries True dst ses ?E = ([], E2) \<and> checkout_tree E2 = checkout_tree ?E"
    proof -
      from cur show ?thesis
      proof
        assume a: "cur = None \<and> des0 = []"
        then have cn: "cur = None" and d0: "des0 = []" by simp_all
        from "1.IH"(1) [OF cn "1.prems"(1) wf0 [unfolded d0] c [unfolded d0] agree]
        show ?thesis by simp
      next
        assume "\<exists>ro. cur = Some (Dir ro des0) \<and> ok"
        then obtain ro where a: "cur = Some (Dir ro des0)" and ok: ok by blast
        from ok have nok: "\<not> \<not> ok" by simp
        from "1.IH"(2) [OF a refl nok "1.prems"(1) wf0 c agree] show ?thesis by simp
      qed
    qed
    then obtain E2 where c2: "copy_entries True dst ses ?E = ([], E2)"
      and e2: "checkout_tree E2 = ?E" by (auto simp: checkout_idem)
    have "has_files E2" using e2 h1 checkout_tree_empty [of E2] checkout_tree_empty [of des1]
      by (simp add: has_file_checkout)
    with c2 e2 M True ok2 show ?thesis by simp
  qed
next
  case (2 ok dst des)
  then show ?case by simp
next
  case (3 ok dst k a c rest des)
  from "3.prems"(1) have wf: "wf_tree rest" and nin: "k \<notin> fst ` set rest" by simp_all
  show ?case
  proof (cases "copy2 (join dst k) k a c (map_of des k)")
    case (Inl e)
    with "3.prems"(3) show ?thesis by (simp split: prod.splits)
  next
    case (Inr m)
    from "3.prems"(3) Inr have c: "copy_entries ok dst rest (AList.update k m des) = ([], des1)"
      by simp
    have wm: "wf_node m" using copy2_wf [OF Inr] wf_map_of [OF "3.prems"(2)] by blast
    with "3.prems"(2) have wfa: "wf_tree (AList.update k m des)" by (simp add: wf_update)
    have d1k: "map_of des1 k = Some m"
      using copy_entries_frame [OF c nin] by (simp add: update_conv')
    have Ek: "map_of E k = kept (Some m)" using "3.prems"(4) [of k] d1k by simp
    from copy2_again [OF Inr] obtain M2 where
      c2: "copy2 (join dst k) k a c (kept (Some m)) = Inr M2" and k2: "kept (Some M2) = kept (Some m)"
      by blast
    let ?Ea = "AList.update k M2 E"
    have "kept (Some M2) = kept (map_of E k)" unfolding Ek kept_kept by (rule k2)
    then have ce: "checkout_tree ?Ea = checkout_tree E" by (rule checkout_update)
    have agree: "\<And>k'. k' \<in> fst ` set rest \<Longrightarrow> map_of ?Ea k' = kept (map_of des1 k')"
    proof -
      fix k' assume a: "k' \<in> fst ` set rest"
      with nin have "k' \<noteq> k" by auto
      then show "map_of ?Ea k' = kept (map_of des1 k')"
        using "3.prems"(4) [of k'] a by (simp add: update_conv')
    qed
    from "3.IH"(2) [OF Inr wf wfa c agree] obtain E2 where
      r: "copy_entries True dst rest ?Ea = ([], E2)" and e: "checkout_tree E2 = checkout_tree ?Ea"
      by blast
    from r e ce c2 Ek show ?thesis by simp
  qed
next
  case (4 ok dst k a ses rest des)
  from "4.prems"(1) have wf: "wf_tree rest" and nin: "k \<notin> fst ` set rest" and wfs: "wf_tree ses"
    by simp_all
  obtain r s where t: "copytree ok (join dst k) a ses (map_of des k) = (r, s)"
    by (cases "copytree ok (join dst k) a ses (map_of des k)")
  from copytree_some [OF t] obtain m where s: "s = Some m" by auto
  let ?des1 = "AList.update k m des"
  obtain errs2 des2 where c: "copy_entries ok dst rest ?des1 = (errs2, des2)"
    by (cases "copy_entries ok dst rest ?des1")
  from "4.prems"(3) t s c have des1: "des1 = des2" and e2: "errs2 = []"
    and er: "(case r of None \<Rightarrow> [] | Some e \<Rightarrow> errors_of e) = []"
    by (simp_all del: copytree.simps)
  have r: "r = None"
  proof (cases r)
    case (Some e)
    with t copytree_error_nonempty [of ok "join dst k" a ses "map_of des k" e s] er
    show ?thesis by simp
  qed simp
  have wcur: "\<And>v. map_of des k = Some v \<Longrightarrow> wf_node v"
    using wf_map_of [OF "4.prems"(2)] by blast
  have wm: "wf_node m" using copy_wf(1) [OF wcur t [unfolded s]] by simp
  with "4.prems"(2) have wfa: "wf_tree ?des1" by (simp add: wf_update)
  have d1k: "map_of des1 k = Some m"
    using copy_entries_frame [OF c nin] des1 by (simp add: update_conv')
  have Ek: "map_of E k = kept (Some m)" using "4.prems"(4) [of k] d1k by simp
  from "4.IH"(1) [OF wfs wcur t [unfolded r s], of True] obtain M2 where
    t2: "copytree True (join dst k) a ses (kept (Some m)) = (None, Some M2)"
    and k2: "kept (Some M2) = kept (Some m)"
    by blast
  let ?Ea = "AList.update k M2 E"
  have "kept (Some M2) = kept (map_of E k)" unfolding Ek kept_kept by (rule k2)
  then have ce: "checkout_tree ?Ea = checkout_tree E" by (rule checkout_update)
  have agree: "\<And>k'. k' \<in> fst ` set rest \<Longrightarrow> map_of ?Ea k' = kept (map_of des2 k')"
  proof -
    fix k' assume a: "k' \<in> fst ` set rest"
    with nin have "k' \<noteq> k" by auto
    then show "map_of ?Ea k' = kept (map_of des2 k')"
      using "4.prems"(4) [of k'] a des1 by (simp add: update_conv')
  qed
  have c': "copy_entries ok dst rest (case s of None \<Rightarrow> des | Some m \<Rightarrow> AList.update k m des) = ([], des2)"
    using c s e2 by simp
  have wfa': "wf_tree (case s of None \<Rightarrow> des | Some m \<Rightarrow> AList.update k m des)"
    using wfa s by simp
  from "4.IH"(2) [OF t [symmetric] wf wfa' c' agree] obtain E2 where
    rr: "copy_entries True dst rest ?Ea = ([], E2)" and e: "checkout_tree E2 = checkout_tree ?Ea"
    by blast
  from rr e ce t2 Ek show ?case by (simp del: copytree.simps)
qed

lemma merge_item_wf:
  assumes "wf_tree des" and "merge_item root x des = (r, d1)"
  shows "wf_tree d1"
proof -
  obtain k n where x: "x = (k, n)" by (cases x)
  have wcur: "\<And>v. map_of des k = Some v \<Longrightarrow> wf_node v"
    using wf_map_of [OF assms(1)] by blast
  show ?thesis
  proof (cases n)
    case (File a c)
    show ?thesis
    proof (cases "copy2 (join root k) k a c (map_of des k)")
      case (Inl e)
      with assms x File show ?thesis by simp
    next
      case (Inr m)
      have "wf_node m" using copy2_wf [OF Inr] wcur by blast
      with assms x File Inr show ?thesis by (auto simp: wf_update)
    qed
  next
    case (Dir a ses)
    obtain r2 s where t: "copytree (map_of des k \<noteq> None) (join root k) a ses (map_of des k) = (r2, s)"
      by (cases "copytree (map_of des k \<noteq> None) (join root k) a ses (map_of des k)")
    from copytree_some [OF t] obtain m where s: "s = Some m" by auto
    have "wf_node m" using copy_wf(1) [OF wcur t [unfolded s]] by simp
    with assms x Dir t s show ?thesis by (auto simp: wf_update simp del: copytree.simps)
  qed
qed

lemma merge_items_wf:
  "wf_tree des \<Longrightarrow> merge_items root items des = (r, d1) \<Longrightarrow> wf_tree d1"
proof (induction items arbitrary: des)
  case Nil
  then show ?case by simp
next
  case (Cons x rest)
  obtain r0 d0 where m: "merge_item root x des = (r0, d0)" by (cases "merge_item root x des")
  note w = merge_item_wf [OF Cons.prems(1) m]
  show ?case
  proof (cases r0)
    case None
    with Cons.prems(2) m have "merge_items root rest d0 = (r, d1)" by simp
    from Cons.IH [OF w this] show ?thesis .
  next
    case (Some e)
    with Cons.prems(2) m w show ?thesis by simp
  qed
qed

lemma merge_item_again:
  assumes "wf_node n" and "wf_tree des" and "merge_item root (k, n) des = (None, d1)"
    and that: "map_of E k = kept (map_of d1 k)"
  shows "\<exists>M M2. map_of d1 k = Some M
      \<and> merge_item root (k, n) E = (None, AList.update k M2 E)
      \<and> kept (Some M2) = kept (Some M)"
proof -
  have wcur: "\<And>v. map_of des k = Some v \<Longrightarrow> wf_node v"
    using wf_map_of [OF assms(2)] by blast
  show ?thesis
  proof (cases n)
    case (File a c)
    from assms(3) File obtain m where c: "copy2 (join root k) k a c (map_of des k) = Inr m"
      and d1: "d1 = AList.update k m des" by (auto split: sum.splits)
    from copy2_again [OF c] obtain M2 where
      c2: "copy2 (join root k) k a c (kept (Some m)) = Inr M2" and k2: "kept (Some M2) = kept (Some m)"
      by blast
    have mk: "map_of d1 k = Some m" using d1 by (simp add: update_conv')
    with that have Ek: "map_of E k = kept (Some m)" by simp
    from c2 Ek File have "merge_item root (k, n) E = (None, AList.update k M2 E)"
      by (simp del: kept_simps)
    with mk k2 show ?thesis by blast
  next
    case (Dir a ses)
    from assms(1) Dir have wfs: "wf_tree ses" by simp
    obtain s where t: "copytree (map_of des k \<noteq> None) (join root k) a ses (map_of des k) = (None, s)"
      using assms(3) Dir by (cases "copytree (map_of des k \<noteq> None) (join root k) a ses (map_of des k)")
        (simp del: copytree.simps)
    from copytree_some [OF t] obtain m where s: "s = Some m" by auto
    from assms(3) Dir t s have d1: "d1 = AList.update k m des" by (simp del: copytree.simps)
    have mk: "map_of d1 k = Some m" using d1 by (simp add: update_conv')
    with that have Ek: "map_of E k = kept (Some m)" by simp
    have "(map_of E k \<noteq> None) \<or> \<not> has_file m" using Ek by simp
    from copy_again(1) [OF wfs wcur t [unfolded s] this] obtain M2 where
      t2: "copytree (map_of E k \<noteq> None) (join root k) a ses (kept (Some m)) = (None, Some M2)"
      and k2: "kept (Some M2) = kept (Some m)" by blast
    from t2 Ek Dir have "merge_item root (k, n) E = (None, AList.update k M2 E)"
      by (simp del: copytree.simps kept_simps)
    with mk k2 show ?thesis by blast
  qed
qed

lemma merge_items_again:
  "wf_tree items \<Longrightarrow> wf_tree des \<Longrightarrow> merge_items root items des = (None, T1) \<Longrightarrow>
     (\<And>k. k \<in> fst ` set items \<Longrightarrow> map_of E k = kept (map_of T1 k)) \<Longrightarrow>
     \<exists>E2. merge_items root items E = (None, E2) \<and> checkout_tree E2 = checkout_tree E"
proof (induction items arbitrary: des E)
  case Nil
  then show ?case by simp
next
  case (Cons x rest)
  obtain k n where x: "x = (k, n)" by (cases x)
  from Cons.prems(1) x have wf: "wf_tree rest" and nin: "k \<notin> fst ` set rest" and wfn: "wf_node n"
    by simp_all
  obtain r1 d1 where m: "merge_item root (k, n) des = (r1, d1)" by (cases "merge_item root (k, n) des")
  from Cons.prems(3) m x have r1: "r1 = None" and rest: "merge_items root rest d1 = (None, T1)"
    by (auto split: option.splits)
  note w1 = merge_item_wf [OF Cons.prems(2) m]
  have fr: "map_of T1 k = map_of d1 k" using merge_items_frame [OF rest nin] .
  have Ek: "map_of E k = kept (map_of d1 k)" using Cons.prems(4) [of k] x fr by simp
  from merge_item_again [OF wfn Cons.prems(2) m [unfolded r1] Ek] obtain M M2 where
    d1k: "map_of d1 k = Some M" and m2: "merge_item root (k, n) E = (None, AList.update k M2 E)"
    and k2: "kept (Some M2) = kept (Some M)" by blast
  let ?Ea = "AList.update k M2 E"
  have "kept (Some M2) = kept (map_of E k)" unfolding Ek d1k kept_kept by (rule k2)
  then have ce: "checkout_tree ?Ea = checkout_tree E" by (rule checkout_update)
  have agree: "\<And>k'. k' \<in> fst ` set rest \<Longrightarrow> map_of ?Ea k' = kept (map_of T1 k')"
  proof -
    fix k' assume a: "k' \<in> fst ` set rest"
    with nin have "k' \<noteq> k" by auto
    then show "map_of ?Ea k' = kept (map_of T1 k')"
      using Cons.prems(4) [of k'] a by (simp add: update_conv')
  qed
  from Cons.IH [OF wf w1 rest agree] obtain E2 where
    rr: "merge_items root rest ?Ea = (None, E2)" and e: "checkout_tree E2 = checkout_tree ?Ea"
    by blast
  from rr e ce m2 x show ?case by (simp del: merge_item.simps)
qed

lemma merge_twice:
  assumes "wf_tree items" and "wf_tree des" and "merge_items root items des = (None, T1)"
  shows "\<exists>T2. merge_items root items (checkout_tree T1) = (None, T2)
           \<and> files_of [] T2 = files_of [] T1"
proof -
  have w1: "wf_tree T1" using merge_items_wf [OF assms(2,3)] .
  have "\<And>k. k \<in> fst ` set items \<Longrightarrow> map_of (checkout_tree T1) k = kept (map_of T1 k)"
    using map_of_checkout [OF w1] by simp
  from merge_items_again [OF assms this] obtain T2 where
    m: "merge_items root items (checkout_tree T1) = (None, T2)"
    and c: "checkout_tree T2 = checkout_tree T1" by (auto simp: checkout_idem)
  have "files_of [] T2 = files_of [] (checkout_tree T2)" by (simp add: files_of_checkout)
  also have "\<dots> = files_of [] T1" unfolding c by (simp add: files_of_checkout)
  finally show ?thesis using m by blast
qed

subsection \<open>What a run leaves outside the clone directory\<close>

lemma same_outside_refl [simp]: "same_outside p w w"
  by (simp add: same_outside_def)

lemma same_outside_trans: "same_outside p a b \<Longrightarrow> same_outside p b c \<Longrightarrow> same_outside p a c"
  by (simp add: same_outside_def)

lemma same_outside_print [simp]: "same_outside p w (print_line s w)"
  by (simp add: same_outside_def)

lemma local_toD: "local_to p f \<Longrightarrow> f w = (r, w') \<Longrightarrow> same_outside p w w'"
  by (auto simp: local_to_def dest: spec [of _ w])

lemma local_seq: "local_to p f \<Longrightarrow> local_to p g \<Longrightarrow> local_to p (seq f g)"
  unfolding local_to_def seq_def
  by (auto split: prod.splits sum.splits) (metis same_outside_trans snd_conv)+

lemma local_try_except: "local_to p f \<Longrightarrow> (\<And>e. local_to p (h e)) \<Longrightarrow> local_to p (try_except f h)"
  unfolding local_to_def try_except_def
  by (auto split: prod.splits sum.splits) (metis same_outside_trans snd_conv)+

lemma local_pr: "local_to p (pr s)"
  by (simp add: local_to_def pr_def)

lemma local_skip: "local_to p skip"
  by (simp add: local_to_def skip_def)

lemma local_raise: "local_to p (raise e)"
  by (simp add: local_to_def raise_def)

lemma local_if: "local_to p f \<Longrightarrow> local_to p g \<Longrightarrow> local_to p (\<lambda>w. if c w then f w else g w)"
  by (simp add: local_to_def)

lemma local_safe_rmtree: "local_to p (safe_rmtree p)"
  by (auto simp: local_to_def safe_rmtree_def set_path_def same_outside_def print_line_def
      split: option.splits prod.splits)

lemma local_clone_from: "local_to p (clone_from url p)"
  by (auto simp: local_to_def clone_from_def same_outside_def split: option.splits)

lemma local_git_checkout: "local_to p (git_checkout b p)"
  by (auto simp: local_to_def git_checkout_def switch_to_def set_worktree_def same_outside_def
      split: option.splits)

lemma local_git_checkout_b: "local_to p (git_checkout_b b p)"
  by (auto simp: local_to_def git_checkout_b_def switch_to_def set_worktree_def same_outside_def
      split: option.splits)

lemma local_copy2_at: "local_to p (copy2_at p item a c)"
  by (auto simp: local_to_def copy2_at_def set_worktree_def same_outside_def
      split: option.splits node.splits sum.splits)

lemma local_copytree_at: "local_to p (copytree_at ok p item a ses)"
  by (auto simp: local_to_def copytree_at_def set_worktree_def same_outside_def
      simp del: copytree.simps split: option.splits node.splits prod.splits)

lemma local_copy_item_clone: "local_to p (copy_item_clone p x)"
  by (cases x, case_tac b)
     (auto intro!: local_seq local_pr local_if local_copytree_at local_copy2_at)

lemma local_copy_items_clone: "local_to p (copy_items_clone p items)"
  by (induction items) (auto intro!: local_seq local_skip local_copy_item_clone)

lemma local_git_add_all: "local_to p (git_add_all p)"
  by (auto simp: local_to_def git_add_all_def same_outside_def split: option.splits)

lemma local_listing: "local_to p (\<lambda>w. case listdir w l of
                Inl e \<Rightarrow> raise e w
              | Inr items \<Rightarrow> copy_items_clone p items w)"
  using local_copy_items_clone local_raise by (auto simp: local_to_def split: sum.splits)

lemma local_merge_clone: "local_to p (merge_clone l p)"
  unfolding merge_clone_def
  by (intro local_seq local_pr local_listing)

lemma local_acquire_clone: "local_to p (acquire_clone url l p)"
  unfolding acquire_clone_def
  by (intro local_seq local_pr local_if local_safe_rmtree local_skip local_clone_from)

lemma local_switch_branch_clone: "local_to p (switch_branch_clone b p)"
  unfolding switch_branch_clone_def
  by (intro local_try_except local_if local_seq local_pr local_git_checkout local_git_checkout_b)

lemma local_prepare_clone: "local_to p (prepare_clone url l p b)"
  unfolding prepare_clone_def
  by (intro local_seq local_acquire_clone local_switch_branch_clone local_merge_clone)

lemma local_cleanup: "local_to p (cleanup p)"
  unfolding cleanup_def
  by (intro local_seq local_pr local_safe_rmtree)

lemma local_clone_handler:
  "local_to p (if is_GitCommandError e then pr (''Git command error: '' @ str_exc e)
               else pr (''Error: '' @ str_exc e))"
  by (simp add: local_pr)

subsection \<open>The clone and its branch\<close>

lemma seq_Inr:
  "seq f g w = (Inr u, w') \<Longrightarrow> \<exists>w1. f w = (Inr (), w1) \<and> g w1 = (Inr u, w')"
  by (auto simp: seq_def split: prod.splits sum.splits)

lemma clone_from_ok:
  "clone_from url p w = (Inr (), w1) \<Longrightarrow> remotes w url = Some rmt \<Longrightarrow>
     fs w1 p = Some (Dir False (checkout_tree (tree_of (history (rm_branches rmt) (rm_head rmt)))))
     \<and> repos w1 p = Some
         \<lparr>r_branches = (case map_of (rm_branches rmt) (rm_head rmt) of
                          None \<Rightarrow> [] | Some h \<Rightarrow> [(rm_head rmt, h)]),
          r_remote_refs = rm_branches rmt,
          r_head = rm_head rmt,
          r_index = tree_of (history (rm_branches rmt) (rm_head rmt)),
          r_origin = Some url\<rparr>"
  by (auto simp: clone_from_def split: option.splits if_splits)

lemma acquire_clone_ok:
  assumes "acquire_clone url l p w = (Inr (), w1)" and "remotes w url = Some rmt"
  shows "fs w1 p = Some (Dir False (checkout_tree (tree_of (history (rm_branches rmt) (rm_head rmt)))))
     \<and> repos w1 p = Some
         \<lparr>r_branches = (case map_of (rm_branches rmt) (rm_head rmt) of
                          None \<Rightarrow> [] | Some h \<Rightarrow> [(rm_head rmt, h)]),
          r_remote_refs = rm_branches rmt,
          r_head = rm_head rmt,
          r_index = tree_of (history (rm_branches rmt) (rm_head rmt)),
          r_origin = Some url\<rparr>"
proof -
  let ?pre = "seq (pr (''Local folder: '' @ l))
    (seq (pr (''Clone directory: '' @ p))
    (seq (\<lambda>w. if exists_path w p
              then seq (pr ''Removing existing clone directory...'') (safe_rmtree p) w
              else skip w)
         (pr (''Cloning repository from '' @ url @ ''...''))))"
  have lp: "local_to p ?pre"
    by (intro local_seq local_pr local_if local_safe_rmtree local_skip)
  have e: "acquire_clone url l p w =
      seq ?pre (seq (clone_from url p) (pr ''Repository cloned successfully'')) w"
    by (simp add: acquire_clone_def seq_def split: prod.splits sum.splits)
  from assms(1) [unfolded e] obtain wa where a: "?pre w = (Inr (), wa)"
    and b: "seq (clone_from url p) (pr ''Repository cloned successfully'') wa = (Inr (), w1)"
    using seq_Inr by blast
  from local_toD [OF lp a] assms(2) have ra: "remotes wa url = Some rmt"
    by (simp add: same_outside_def)
  from seq_Inr [OF b] obtain wb where c: "clone_from url p wa = (Inr (), wb)"
    and d: "pr ''Repository cloned successfully'' wb = (Inr (), w1)" by blast
  from d have "w1 = print_line ''Repository cloned successfully'' wb" by (simp add: pr_def)
  with clone_from_ok [OF c ra] show ?thesis by simp
qed

lemma origin_ref:
  "(''origin/'' @ b) \<in> (\<lambda>x. ''origin/'' @ fst x) ` set B \<longleftrightarrow> map_of B b \<noteq> None"
  by (auto simp: map_of_eq_None_iff image_iff)

lemma history_update [simp]: "history (AList.update k h B) k = h"
  by (simp add: history_def update_conv')

lemma selected_branch_stable:
  "selected_branch (rmt\<lparr>rm_branches := AList.update (selected_branch rmt b F) h (rm_branches rmt)\<rparr>) b F
     = selected_branch rmt b F"
  by (simp add: selected_branch_def update_conv')

lemma wf_remote_tree: "wf_remote rmt \<Longrightarrow> wf_tree (tree_of (history (rm_branches rmt) b))"
proof -
  assume a: "wf_remote rmt"
  show ?thesis
  proof (cases "map_of (rm_branches rmt) b")
    case None
    then show ?thesis by (simp add: history_def tree_of_def)
  next
    case (Some h)
    then have "(b, h) \<in> set (rm_branches rmt)" by (rule map_of_SomeD)
    with a have "list_all (\<lambda>c. wf_tree (c_tree c)) h"
      by (auto simp: wf_remote_def list_all_iff)
    with Some show ?thesis by (cases h) (simp_all add: history_def tree_of_def)
  qed
qed

lemma clone_branch_names:
  assumes "repos w p = Some r0"
    and "r_branches r0 = (case map_of B hb of None \<Rightarrow> [] | Some h \<Rightarrow> [(hb, h)])"
  shows "b \<in> set (branch_names w p) \<longleftrightarrow> b = hb \<and> map_of B hb \<noteq> None"
  using assms by (cases "map_of B hb") (simp_all add: branch_names_def)

lemma clone_ref_names:
  assumes "repos w p = Some r0" and "r_remote_refs r0 = B"
  shows "map_of B b \<noteq> None \<Longrightarrow> (''origin/'' @ b) \<in> set (ref_names w p)"
proof -
  assume "map_of B b \<noteq> None"
  then have "(''origin/'' @ b) \<in> (\<lambda>x. ''origin/'' @ fst x) ` set B"
    using origin_ref [of b B] by blast
  then show ?thesis using assms by (simp add: ref_names_def)
qed

lemma switch_clone_print:
  assumes "switch_branch_clone b p w = (res, w2)"
    and "b \<in> set (branch_names w p) \<Longrightarrow> snd (git_checkout b p w) = w"
    and "b \<notin> set (branch_names w p) \<Longrightarrow> (''origin/'' @ b) \<in> set (ref_names w p) \<Longrightarrow>
           \<exists>x. git_checkout_b b p w = (Inl x, w)"
  shows "\<exists>t. w2 = print_line t w"
proof (cases "b \<in> set (branch_names w p)")
  case True
  obtain q where "git_checkout b p w = (q, w)"
    using assms(2) [OF True] by (cases "git_checkout b p w") simp
  with assms(1) True show ?thesis
    by (cases q) (auto simp: switch_branch_clone_def try_except_def seq_def pr_def)
next
  case False
  show ?thesis
  proof (cases "(''origin/'' @ b) \<in> set (ref_names w p)")
    case True
    from assms(3) [OF False True] obtain x where "git_checkout_b b p w = (Inl x, w)" by blast
    with assms(1) False True show ?thesis
      by (auto simp: switch_branch_clone_def try_except_def seq_def pr_def)
  next
    case nr: False
    with assms(1) False show ?thesis
      by (auto simp: switch_branch_clone_def try_except_def pr_def)
  qed
qed

lemma switch_after_clone:
  assumes f: "fs w p = Some (Dir False (checkout_tree (tree_of (history (rm_branches rmt) (rm_head rmt)))))"
    and r: "repos w p = Some r0"
    and rb: "r_branches r0 = (case map_of (rm_branches rmt) (rm_head rmt) of
                          None \<Rightarrow> [] | Some h \<Rightarrow> [(rm_head rmt, h)])"
    and rr: "r_remote_refs r0 = rm_branches rmt"
    and rh: "r_head r0 = rm_head rmt"
    and ro: "r_origin r0 = Some url"
    and s: "switch_branch_clone b p w = (res, w2)"
  shows "fs w2 p = Some (Dir False
            (checkout_tree (tree_of (history (rm_branches rmt) (selected_branch rmt b (git_fault w))))))
     \<and> (\<exists>r. repos w2 p = Some r \<and> r_head r = selected_branch rmt b (git_fault w)
          \<and> history (r_branches r) (selected_branch rmt b (git_fault w))
              = history (rm_branches rmt) (selected_branch rmt b (git_fault w))
          \<and> r_origin r = Some url)"
proof -
  let ?hb = "rm_head rmt"
  let ?B = "rm_branches rmt"
  let ?sel = "selected_branch rmt b (git_fault w)"
  note bn = clone_branch_names [OF r rb]
  have hh: "history (r_branches r0) ?hb = history ?B ?hb"
    by (cases "map_of ?B ?hb") (simp_all add: rb history_def)
  have same: "fs (print_line t w) p = Some (Dir False (checkout_tree (tree_of (history ?B ?hb))))
     \<and> (\<exists>r. repos (print_line t w) p = Some r \<and> r_head r = ?hb
          \<and> history (r_branches r) ?hb = history ?B ?hb \<and> r_origin r = Some url)" for t
    using f r rh ro hh by simp
  show ?thesis
  proof (cases "b \<noteq> ?hb \<and> map_of ?B b \<noteq> None \<and> git_fault w Checkout = None")
    case False
    have e: "?sel = ?hb"
      unfolding selected_branch_def using False by (rule if_not_P)
    have c1: "snd (git_checkout b p w) = w" if "b \<in> set (branch_names w p)"
    proof -
      from that bn obtain h where b: "b = ?hb" and h: "map_of ?B ?hb = Some h" by auto
      show ?thesis
        using r h b by (cases "git_fault w Checkout") (simp_all add: git_checkout_def rb rh)
    qed
    have c2: "\<exists>x. git_checkout_b b p w = (Inl x, w)"
      if nb: "b \<notin> set (branch_names w p)" and "(''origin/'' @ b) \<in> set (ref_names w p)"
    proof (cases "git_fault w Checkout")
      case (Some x)
      then show ?thesis by (simp add: git_checkout_b_def)
    next
      case None
      have "map_of ?B b = None"
      proof (rule ccontr)
        assume a: "map_of ?B b \<noteq> None"
        show False
        proof (cases "b = ?hb")
          case True
          with a nb bn show False by simp
        next
          case ne: False
          with a None False show False by blast
        qed
      qed
      with None r show ?thesis by (simp add: git_checkout_b_def rr)
    qed
    from switch_clone_print [OF s c1 c2] obtain t where "w2 = print_line t w" by blast
    with same [of t] e show ?thesis by simp
  next
    case True
    then have ne: "b \<noteq> ?hb" and nf: "git_fault w Checkout = None"
      and "map_of ?B b \<noteq> None" by blast+
    then obtain h where h: "map_of ?B b = Some h" by blast
    have e: "?sel = b"
      unfolding selected_branch_def using True by (rule if_P)
    let ?r1 = "r0\<lparr>r_branches := r_branches r0 @ [(b, h)]\<rparr>"
    have nb: "b \<notin> set (branch_names w p)" using bn ne by simp
    have bnot: "b \<notin> set (map fst (r_branches r0))"
      using ne by (cases "map_of ?B ?hb") (simp_all add: rb)
    have "history (r_branches r0 @ [(b, h)]) ?hb = history ?B ?hb"
      using ne by (cases "map_of ?B ?hb") (simp_all add: rb history_def)
    then have ht: "head_tree ?r1 = tree_of (history ?B ?hb)"
      by (simp add: head_tree_def rh)
    have clean: "set (files_of [] (worktree w p)) = set (files_of [] (head_tree ?r1))"
      unfolding ht using f by (simp add: worktree_def files_of_checkout)
    let ?w1 = "(set_worktree p (checkout_tree (tree_of h)) w)
              \<lparr>repos := (repos w)(p \<mapsto> ?r1\<lparr>r_head := b, r_index := tree_of h\<rparr>)\<rparr>"
    have "switch_to b h p ?r1 w = (Inr (), ?w1)"
      using clean by (simp add: switch_to_def)
    with nf r h bnot have g: "git_checkout_b b p w = (Inr (), ?w1)"
      by (simp add: git_checkout_b_def rr)
    have "(''origin/'' @ b) \<in> set (ref_names w p)"
      using clone_ref_names [OF r rr] h by simp
    from switch_clone_remote(1) [OF nb this g] s
    have w2: "w2 = print_line (''Created and switched to branch: '' @ b) ?w1" by simp
    have hb: "history ?B b = h" using h by (simp add: history_def)
    have h1: "history (r_branches r0 @ [(b, h)]) b = h"
      using bnot by (cases "map_of ?B ?hb") (simp_all add: rb history_def)
    have "fs ?w1 p = Some (Dir False (checkout_tree (tree_of h)))"
      using f by (simp add: set_worktree_def)
    moreover have "repos ?w1 p = Some (?r1\<lparr>r_head := b, r_index := tree_of h\<rparr>)" by simp
    ultimately show ?thesis
      unfolding e w2 hb using h1 ro by simp
  qed
qed

lemma merge_clone_world:
  assumes "fs w l = Some (Dir la items)" and "fs w root = Some (Dir ro des)"
    and "merge_items root items des = (r, d1)"
  shows "repos (snd (merge_clone l root w)) = repos w"
proof -
  let ?w1 = "print_line (''Copying contents from '' @ l @ '' to '' @ root) w"
  have f: "fs ?w1 root = Some (Dir ro des)" and l: "listdir ?w1 l = Inr items"
    using assms(1,2) by (simp_all add: listdir_def)
  note c = copy_items_clone_refines [OF f assms(3)]
  obtain q w2 where q: "copy_items_clone root items ?w1 = (q, w2)"
    by (cases "copy_items_clone root items ?w1")
  with c have g: "repos w2 = repos w" by (simp add: same_git_def)
  have m: "merge_clone l root w =
        (case q of Inl e \<Rightarrow> (Inl e, w2) | Inr u \<Rightarrow> (Inr (), print_line ''Files copied successfully'' w2))"
    using l q by (simp add: merge_clone_def seq_def pr_def split: sum.splits)
  show ?thesis unfolding m using g by (simp split: sum.splits)
qed

lemma prepare_clone_ok:
  assumes p: "prepare_clone url l p b w = (Inr (), w3)"
    and rm: "remotes w url = Some rmt"
    and src: "fs w l = Some (Dir la items)" and ne: "l \<noteq> p"
  shows "\<exists>T r. merge_items p items
             (checkout_tree (tree_of (history (rm_branches rmt) (selected_branch rmt b (git_fault w)))))
               = (None, T)
          \<and> worktree w3 p = T \<and> repos w3 p = Some r
          \<and> r_head r = selected_branch rmt b (git_fault w)
          \<and> history (r_branches r) (selected_branch rmt b (git_fault w))
              = history (rm_branches rmt) (selected_branch rmt b (git_fault w))
          \<and> r_origin r = Some url"
proof -
  let ?sel = "selected_branch rmt b (git_fault w)"
  let ?C = "checkout_tree (tree_of (history (rm_branches rmt) ?sel))"
  from p [unfolded prepare_clone_def] obtain w1 where
    a: "acquire_clone url l p w = (Inr (), w1)"
    and b: "seq (switch_branch_clone b p) (merge_clone l p) w1 = (Inr (), w3)"
    using seq_Inr by blast
  from seq_Inr [OF b] obtain w2 where s: "switch_branch_clone b p w1 = (Inr (), w2)"
    and m: "merge_clone l p w2 = (Inr (), w3)" by blast
  note o1 = local_toD [OF local_acquire_clone a]
  note o2 = local_toD [OF local_switch_branch_clone s]
  from o1 have gf: "git_fault w1 = git_fault w" by (simp add: same_outside_def)
  from o1 o2 ne src have src2: "fs w2 l = Some (Dir la items)" by (simp add: same_outside_def)
  from acquire_clone_ok [OF a rm] obtain r0 where
    f1: "fs w1 p = Some (Dir False (checkout_tree (tree_of (history (rm_branches rmt) (rm_head rmt)))))"
    and r1: "repos w1 p = Some r0"
    and r0: "r0 = \<lparr>r_branches = (case map_of (rm_branches rmt) (rm_head rmt) of
                          None \<Rightarrow> [] | Some h \<Rightarrow> [(rm_head rmt, h)]),
          r_remote_refs = rm_branches rmt,
          r_head = rm_head rmt,
          r_index = tree_of (history (rm_branches rmt) (rm_head rmt)),
          r_origin = Some url\<rparr>" by blast
  have fields: "r_branches r0 = (case map_of (rm_branches rmt) (rm_head rmt) of
                          None \<Rightarrow> [] | Some h \<Rightarrow> [(rm_head rmt, h)])"
    "r_remote_refs r0 = rm_branches rmt" "r_head r0 = rm_head rmt" "r_origin r0 = Some url"
    unfolding r0 by simp_all
  from switch_after_clone [OF f1 r1 fields s, unfolded gf] obtain r where
    f2: "fs w2 p = Some (Dir False ?C)" and r2: "repos w2 p = Some r" and rh: "r_head r = ?sel"
    and hr: "history (r_branches r) ?sel = history (rm_branches rmt) ?sel"
    and ro: "r_origin r = Some url" by blast
  obtain q T where mi: "merge_items p items ?C = (q, T)" by (cases "merge_items p items ?C")
  from merge_clone_result(1) [OF src2 f2 mi] m have q: "q = None"
    by (cases q) simp_all
  from merge_clone_result(2) [OF src2 f2 mi] m have wt: "worktree w3 p = T" by simp
  from merge_clone_world [OF src2 f2 mi] m r2 have r3: "repos w3 p = Some r" by simp
  from mi q wt r3 rh hr ro show ?thesis by blast
qed

subsection \<open>The publishing step\<close>

lemma publish_clean:
  assumes "repos w p = Some r"
    and "set (files_of [] (worktree w p)) = set (files_of [] (head_tree r))"
  shows "same_outside p w (snd (publish_clone m p w))"
proof (cases "git_add_all p w")
  case (Pair q w1)
  note o = local_toD [OF local_git_add_all Pair]
  show ?thesis
  proof (cases q)
    case (Inl e)
    with Pair have "publish_clone m p w = (Inl e, w1)" by (simp add: publish_clone_def seq_def)
    with o show ?thesis by simp
  next
    case (Inr u)
    with Pair have g: "git_add_all p w = (Inr (), w1)" by simp
    from has_changes_after_add [OF g assms(1)] assms(2) have "\<not> has_changes w1 p" by simp
    from publish_clone_no_changes [OF g this, of m] o show ?thesis
      by (simp add: same_outside_def)
  qed
qed

lemma publish_pushed:
  assumes r: "repos w p = Some r" and ro: "r_origin r = Some url" and rm: "remotes w url = Some rmt"
    and ev: "events (snd (publish_clone m p w)) = events w @ [e1, e2]"
  shows "remotes (snd (publish_clone m p w)) =
           (remotes w)(url \<mapsto> rmt\<lparr>rm_branches :=
               AList.update (r_head r)
                 (\<lparr>c_message = m, c_tree = worktree w p\<rparr> # history (r_branches r) (r_head r))
                 (rm_branches rmt)\<rparr>)
         \<and> git_fault (snd (publish_clone m p w)) = git_fault w
         \<and> cwd (snd (publish_clone m p w)) = cwd w"
proof (cases "git_fault w Add")
  case (Some e)
  then have "publish_clone m p w = (Inl e, w)"
    by (simp add: publish_clone_def seq_def git_add_all_def)
  with ev show ?thesis by simp
next
  case None
  define w1 where "w1 = print_line ''Files added to staging area''
      (w\<lparr>repos := (repos w)(p \<mapsto> r\<lparr>r_index := worktree w p\<rparr>)\<rparr>)"
  have a: "publish_clone m p w =
      (if has_changes w1 p
       then seq (index_commit m p) (seq (pr (''Changes committed: '' @ m)) (push_clone p)) w1
       else pr ''No changes to commit'' w1)"
    using None r by (simp add: publish_clone_def seq_def git_add_all_def pr_def w1_def)
  have w1: "events w1 = events w" "remotes w1 = remotes w" "git_fault w1 = git_fault w"
    "cwd w1 = cwd w" "repos w1 p = Some (r\<lparr>r_index := worktree w p\<rparr>)"
    by (simp_all add: w1_def)
  show ?thesis
  proof (cases "has_changes w1 p \<and> git_fault w Commit = None")
    case False
    then have "events (snd (publish_clone m p w)) = events w"
      unfolding a using w1 by (auto simp: pr_def seq_def index_commit_def split: option.splits)
    with ev show ?thesis by simp
  next
    case True
    let ?c = "\<lparr>c_message = m, c_tree = worktree w p\<rparr>"
    let ?r2 = "(r\<lparr>r_index := worktree w p\<rparr>)\<lparr>r_branches :=
                 AList.update (r_head r) (?c # history (r_branches r) (r_head r)) (r_branches r)\<rparr>"
    define w2 where "w2 = print_line (''Changes committed: '' @ m)
       (w1\<lparr>repos := (repos w1)(p \<mapsto> ?r2), events := events w1 @ [EvCommit p m]\<rparr>)"
    have b: "publish_clone m p w = push_clone p w2"
      unfolding a using True w1 by (simp add: seq_def index_commit_def pr_def w2_def)
    have w2: "events w2 = events w @ [EvCommit p m]" "remotes w2 = remotes w"
      "git_fault w2 = git_fault w" "cwd w2 = cwd w" "repos w2 p = Some ?r2"
      using w1 by (simp_all add: w2_def)
    show ?thesis
    proof (cases "git_fault w Push")
      case (Some e)
      then have "push_origin p w2 = (Inl e, w2)"
        using w2 ro by (simp add: push_origin_def)
      then have "events (snd (push_clone p w2)) = events w2"
        by (simp add: push_clone_def try_except_def seq_def pr_def raise_def)
      with ev b w2 show ?thesis by simp
    next
      case None
      let ?rmt = "rmt\<lparr>rm_branches :=
               AList.update (r_head r) (?c # history (r_branches r) (r_head r)) (rm_branches rmt)\<rparr>"
      let ?w3 = "w2\<lparr>remotes := (remotes w2)(url \<mapsto> ?rmt),
                    repos := (repos w2)(p \<mapsto>
                       ?r2\<lparr>r_remote_refs :=
                           AList.update (r_head r) (?c # history (r_branches r) (r_head r))
                             (r_remote_refs r)\<rparr>),
                    events := events w2 @ [EvPush url (r_head r)]\<rparr>"
      have "push_origin p w2 = (Inr (), ?w3)"
        using None w2 ro rm by (simp add: push_origin_def)
      then have "push_clone p w2 = (Inr (), print_line ''Successfully pushed to remote repository'' ?w3)"
        by (simp add: push_clone_def try_except_def seq_def pr_def)
      with b w2 show ?thesis by simp
    qed
  qed
qed

subsection \<open>The two runs\<close>

lemma abspath_cwd: "cwd w' = cwd w \<Longrightarrow> abspath w' x = abspath w x"
  by (simp add: abspath_def split: list.splits)

lemma tree_of_Cons [simp]: "tree_of (c # h) = c_tree c"
  by (simp add: tree_of_def)

lemma clone_op_tail:
  "same_outside (abspath w c)
     (snd (clone_and_push_body url (abspath w l) (abspath w c) m b w))
     (snd (clone_and_push_folder_fixed url l c m b w))"
proof -
  let ?body = "clone_and_push_body url (abspath w l) (abspath w c) m b"
  let ?h = "\<lambda>e. if is_GitCommandError e then pr (''Git command error: '' @ str_exc e)
               else pr (''Error: '' @ str_exc e)"
  obtain q wB where B: "?body w = (q, wB)" by (cases "?body w")
  have "\<exists>t. snd (try_except ?body ?h w) = wB \<or> snd (try_except ?body ?h w) = print_line t wB"
    using B by (cases q) (auto simp: try_except_def pr_def)
  then have a: "same_outside (abspath w c) wB (snd (try_except ?body ?h w))"
    by (auto simp: same_outside_def)
  have "same_outside (abspath w c) (snd (try_except ?body ?h w))
          (snd (cleanup (abspath w c) (snd (try_except ?body ?h w))))"
    using local_cleanup [of "abspath w c"] by (simp add: local_to_def)
  with a show ?thesis
    unfolding clone_op_is_cleanup [of url l c m b w] using B
    by (auto intro: same_outside_trans)
qed

lemma first_run_pushed:
  assumes rm: "remotes w url = Some rmt"
    and src: "fs w l = Some (Dir la items)" and ne: "l \<noteq> p"
    and ev: "events (snd (clone_and_push_body url l p m b w)) = events w @ [e1, e2]"
  shows "\<exists>T. merge_items p items
             (checkout_tree (tree_of (history (rm_branches rmt) (selected_branch rmt b (git_fault w)))))
               = (None, T)
          \<and> remotes (snd (clone_and_push_body url l p m b w)) =
              (remotes w)(url \<mapsto> rmt\<lparr>rm_branches :=
                 AList.update (selected_branch rmt b (git_fault w))
                   (\<lparr>c_message = m, c_tree = T\<rparr>
                      # history (rm_branches rmt) (selected_branch rmt b (git_fault w)))
                   (rm_branches rmt)\<rparr>)
          \<and> git_fault (snd (clone_and_push_body url l p m b w)) = git_fault w
          \<and> cwd (snd (clone_and_push_body url l p m b w)) = cwd w
          \<and> fs (snd (clone_and_push_body url l p m b w)) l = fs w l"
proof -
  obtain q w3 where P: "prepare_clone url l p b w = (q, w3)"
    by (cases "prepare_clone url l p b w")
  note o = local_toD [OF local_prepare_clone P]
  show ?thesis
  proof (cases q)
    case (Inl e)
    with P have "clone_and_push_body url l p m b w = (Inl e, w3)"
      by (simp add: clone_and_push_body_def seq_def)
    with o ev show ?thesis by (simp add: same_outside_def)
  next
    case (Inr u)
    with P have P': "prepare_clone url l p b w = (Inr (), w3)" by simp
    then have B: "clone_and_push_body url l p m b w = publish_clone m p w3"
      by (simp add: clone_and_push_body_def seq_def)
    from prepare_clone_ok [OF P' rm src ne] obtain T r where
      mi: "merge_items p items
             (checkout_tree (tree_of (history (rm_branches rmt) (selected_branch rmt b (git_fault w)))))
               = (None, T)"
      and wt: "worktree w3 p = T" and r3: "repos w3 p = Some r"
      and rh: "r_head r = selected_branch rmt b (git_fault w)"
      and hr: "history (r_branches r) (selected_branch rmt b (git_fault w))
              = history (rm_branches rmt) (selected_branch rmt b (git_fault w))"
      and ro: "r_origin r = Some url" by blast
    from o rm have rm3: "remotes w3 url = Some rmt" by (simp add: same_outside_def)
    from o ev B have ev3: "events (snd (publish_clone m p w3)) = events w3 @ [e1, e2]"
      by (simp add: same_outside_def)
    note pp = publish_pushed [OF r3 ro rm3 ev3, unfolded rh hr wt]
    have "fs (snd (publish_clone m p w3)) l = fs w l"
      using o ne by (simp add: publish_clone_fs same_outside_def)
    with pp o mi show ?thesis unfolding B by (simp add: same_outside_def)
  qed
qed

lemma second_run_quiet:
  assumes rm: "remotes w url = Some rmt"
    and src: "fs w l = Some (Dir la items)" and ne: "l \<noteq> p"
    and same: "\<And>T2. merge_items p items
             (checkout_tree (tree_of (history (rm_branches rmt) (selected_branch rmt b (git_fault w)))))
               = (None, T2) \<Longrightarrow>
           set (files_of [] T2) =
           set (files_of [] (tree_of (history (rm_branches rmt) (selected_branch rmt b (git_fault w)))))"
  shows "same_outside p w (snd (clone_and_push_body url l p m b w))"
proof -
  obtain q w3 where P: "prepare_clone url l p b w = (q, w3)"
    by (cases "prepare_clone url l p b w")
  note o = local_toD [OF local_prepare_clone P]
  show ?thesis
  proof (cases q)
    case (Inl e)
    with P have "clone_and_push_body url l p m b w = (Inl e, w3)"
      by (simp add: clone_and_push_body_def seq_def)
    with o show ?thesis by simp
  next
    case (Inr u)
    with P have P': "prepare_clone url l p b w = (Inr (), w3)" by simp
    then have B: "clone_and_push_body url l p m b w = publish_clone m p w3"
      by (simp add: clone_and_push_body_def seq_def)
    from prepare_clone_ok [OF P' rm src ne] obtain T r where
      mi: "merge_items p items
             (checkout_tree (tree_of (history (rm_branches rmt) (selected_branch rmt b (git_fault w)))))
               = (None, T)"
      and wt: "worktree w3 p = T" and r3: "repos w3 p = Some r"
      and rh: "r_head r = selected_branch rmt b (git_fault w)"
      and hr: "history (r_branches r) (selected_branch rmt b (git_fault w))
              = history (rm_branches rmt) (selected_branch rmt b (git_fault w))"
      by blast
    have "head_tree r = tree_of (history (rm_branches rmt) (selected_branch rmt b (git_fault w)))"
      by (simp add: head_tree_def rh hr)
    with same [OF mi] wt have "set (files_of [] (worktree w3 p)) = set (files_of [] (head_tree r))"
      by simp
    from publish_clean [OF r3 this, of m] o show ?thesis
      unfolding B by (rule same_outside_trans [rotated])
  qed
qed

text \<open>
  C3, as amended. Take a remote whose commits hold well-formed trees and a well-formed
  source folder other than the clone directory. If a run of
  \<^verbatim>\<open>clone_and_push_folder_fixed\<close> makes a commit and its push is accepted, then
  a second run with the same arguments, started in the world that the first run left
  (whatever the cleanup could remove, whatever the branch, whatever was in the remote),
  makes no commit and no push and leaves the remote as the first run left it: the two
  runs together make exactly one commit. The source folder is not an assumption about
  the second run: the first run leaves it unchanged.
\<close>

theorem second_run_makes_no_commit:
  assumes rm: "remotes w url = Some rmt" and wr: "wf_remote rmt"
    and src: "fs w (abspath w l) = Some (Dir la items)" and wi: "wf_tree items"
    and ne: "abspath w l \<noteq> abspath w c"
    and ev: "events (snd (clone_and_push_folder_fixed url l c m b w)) =
               events w @ [EvCommit (abspath w c) m, EvPush url br]"
  shows "events (snd (clone_and_push_folder_fixed url l c m b
                   (snd (clone_and_push_folder_fixed url l c m b w)))) =
           events (snd (clone_and_push_folder_fixed url l c m b w))
       \<and> remotes (snd (clone_and_push_folder_fixed url l c m b
                   (snd (clone_and_push_folder_fixed url l c m b w)))) =
           remotes (snd (clone_and_push_folder_fixed url l c m b w))
       \<and> filter is_commit (events (snd (clone_and_push_folder_fixed url l c m b
                   (snd (clone_and_push_folder_fixed url l c m b w))))) =
           filter is_commit (events w) @ [EvCommit (abspath w c) m]"
proof -
  let ?L = "abspath w l"
  let ?P = "abspath w c"
  let ?w1 = "snd (clone_and_push_folder_fixed url l c m b w)"
  let ?wB = "snd (clone_and_push_body url ?L ?P m b w)"
  let ?sel = "selected_branch rmt b (git_fault w)"
  let ?H = "history (rm_branches rmt) ?sel"
  note t1 = clone_op_tail [of w c url l m b]
  from t1 ev have evB: "events ?wB = events w @ [EvCommit ?P m, EvPush url br]"
    by (simp add: same_outside_def)
  from first_run_pushed [OF rm src ne evB] obtain T where
    mi: "merge_items ?P items (checkout_tree (tree_of ?H)) = (None, T)"
    and rB: "remotes ?wB = (remotes w)(url \<mapsto> rmt\<lparr>rm_branches :=
                 AList.update ?sel (\<lparr>c_message = m, c_tree = T\<rparr> # ?H) (rm_branches rmt)\<rparr>)"
    and gB: "git_fault ?wB = git_fault w" and cB: "cwd ?wB = cwd w"
    and fB: "fs ?wB ?L = fs w ?L" by blast
  let ?rmt = "rmt\<lparr>rm_branches :=
                 AList.update ?sel (\<lparr>c_message = m, c_tree = T\<rparr> # ?H) (rm_branches rmt)\<rparr>"
  from t1 rB have r1: "remotes ?w1 url = Some ?rmt" by (simp add: same_outside_def)
  from t1 gB have g1: "git_fault ?w1 = git_fault w" by (simp add: same_outside_def)
  from t1 cB have c1: "cwd ?w1 = cwd w" by (simp add: same_outside_def)
  from t1 fB src ne have f1: "fs ?w1 ?L = Some (Dir la items)" by (simp add: same_outside_def)
  note a1 = abspath_cwd [OF c1]
  have sel: "selected_branch ?rmt b (git_fault ?w1) = ?sel"
    unfolding g1 by (rule selected_branch_stable)
  have H1: "tree_of (history (rm_branches ?rmt) ?sel) = T" by simp
  have wc: "wf_tree (checkout_tree (tree_of ?H))"
    using wf_checkout(2) [OF wf_remote_tree [OF wr]] .
  from merge_twice [OF wi wc mi] obtain T2 where
    m2: "merge_items ?P items (checkout_tree T) = (None, T2)"
    and ff: "files_of [] T2 = files_of [] T" by blast
  have same: "\<And>T3. merge_items ?P items
             (checkout_tree (tree_of (history (rm_branches ?rmt)
                (selected_branch ?rmt b (git_fault ?w1))))) = (None, T3) \<Longrightarrow>
           set (files_of [] T3) =
           set (files_of [] (tree_of (history (rm_branches ?rmt)
                (selected_branch ?rmt b (git_fault ?w1)))))"
    unfolding sel H1 using m2 ff by simp
  have q: "same_outside ?P ?w1 (snd (clone_and_push_body url ?L ?P m b ?w1))"
    by (rule second_run_quiet [OF r1 f1 ne same])
  have t2: "same_outside ?P (snd (clone_and_push_body url ?L ?P m b ?w1))
              (snd (clone_and_push_folder_fixed url l c m b ?w1))"
    using clone_op_tail [of ?w1 c url l m b] unfolding a1 .
  from same_outside_trans [OF q t2]
  have e2: "events (snd (clone_and_push_folder_fixed url l c m b ?w1)) = events ?w1"
    and r2: "remotes (snd (clone_and_push_folder_fixed url l c m b ?w1)) = remotes ?w1"
    by (simp_all add: same_outside_def)
  have "filter is_commit (events ?w1) = filter is_commit (events w) @ [EvCommit ?P m]"
    unfolding ev by simp
  with e2 r2 show ?thesis by simp
qed

theorem second_run_makes_no_commit_witness:
  "remotes ex_world ''url'' = Some ex_remote \<and> wf_remote ex_remote
   \<and> fs ex_world (abspath ex_world ''src'') =
        Some (Dir False [(''a.txt'', File False ''A''), (''docs'', Dir False [(''n.md'', File True ''N'')])])
   \<and> wf_tree [(''a.txt'', File False ''A''), (''docs'', Dir False [(''n.md'', File True ''N'')])]
   \<and> abspath ex_world ''src'' \<noteq> abspath ex_world ''temp_repo''
   \<and> events (snd (clone_and_push_folder_fixed ''url'' ''src'' ''temp_repo'' ''msg'' ''main'' ex_world)) =
        events ex_world @ [EvCommit (abspath ex_world ''temp_repo'') ''msg'', EvPush ''url'' ''main'']
   \<and> filter is_commit (events (snd (clone_and_push_folder_fixed ''url'' ''src'' ''temp_repo'' ''msg'' ''main''
          (snd (clone_and_push_folder_fixed ''url'' ''src'' ''temp_repo'' ''msg'' ''main'' ex_world))))) =
        filter is_commit (events ex_world) @ [EvCommit (abspath ex_world ''temp_repo'') ''msg'']"
proof -
  let ?items = "[(''a.txt'', File False ''A''), (''docs'', Dir False [(''n.md'', File True ''N'')])]"
  have a: "remotes ex_world ''url'' = Some ex_remote"
    by (simp add: ex_world_def)
  have b: "wf_remote ex_remote"
    by (simp add: wf_remote_def ex_remote_def)
  have c: "fs ex_world (abspath ex_world ''src'') = Some (Dir False ?items)"
    by (simp add: ex_world_def abspath_def join_def ex_src_def)
  have d: "wf_tree ?items" by simp
  have e: "abspath ex_world ''src'' \<noteq> abspath ex_world ''temp_repo''"
    by (simp add: ex_world_def abspath_def join_def)
  have f: "events (snd (clone_and_push_folder_fixed ''url'' ''src'' ''temp_repo'' ''msg'' ''main'' ex_world)) =
        events ex_world @ [EvCommit (abspath ex_world ''temp_repo'') ''msg'', EvPush ''url'' ''main'']"
    by code_simp
  from second_run_makes_no_commit [OF a b c d e f]
  have "filter is_commit (events (snd (clone_and_push_folder_fixed ''url'' ''src'' ''temp_repo'' ''msg'' ''main''
          (snd (clone_and_push_folder_fixed ''url'' ''src'' ''temp_repo'' ''msg'' ''main'' ex_world))))) =
        filter is_commit (events ex_world) @ [EvCommit (abspath ex_world ''temp_repo'') ''msg'']"
    by (elim conjE) assumption
  with a b c d e f show ?thesis by blast
qed

text \<open>
  The claim as stated fails in two ways. When the remote refuses the push of the first
  run, the commit stays in the clone that the cleanup deletes, the second run finds the
  same changes and commits again: two commits, none published. And when the source
  folder holds only what the branch already holds, neither run commits: no commit at
  all. In both runs the source folder is unchanged.
\<close>

theorem two_runs_counterexample:
  "events (snd (clone_and_push_folder_fixed ''url'' ''src'' ''temp_repo'' ''msg'' ''main''
      (snd (clone_and_push_folder_fixed ''url'' ''src'' ''temp_repo'' ''msg'' ''main''
         (ex_push_refused ex_world))))) =
     [EvCommit ''/w/temp_repo'' ''msg'', EvCommit ''/w/temp_repo'' ''msg'']
   \<and> fs (snd (clone_and_push_folder_fixed ''url'' ''src'' ''temp_repo'' ''msg'' ''main''
         (ex_push_refused ex_world))) ''/w/src'' = fs (ex_push_refused ex_world) ''/w/src''
   \<and> events (snd (clone_and_push_folder_fixed ''url'' ''src'' ''temp_repo'' ''msg'' ''main''
      (snd (clone_and_push_folder_fixed ''url'' ''src'' ''temp_repo'' ''msg'' ''main'' ex_published)))) = []
   \<and> fs (snd (clone_and_push_folder_fixed ''url'' ''src'' ''temp_repo'' ''msg'' ''main'' ex_published))
       ''/w/src'' = fs ex_published ''/w/src''"
  by code_simp

end
